theory Spec2Isabelle
  imports Main "HOL-Library.Word" "HOL-Library.Monad_Syntax"
begin

section \<open>The element type, the free store and outcomes\<close>

text \<open>
  \<^verbatim>\<open>size_t\<close> is a 64-bit unsigned integer: \<open>+\<close>, \<open>-\<close> and \<open>*\<close> wrap around.
  An address names one allocation made by \<^verbatim>\<open>new Type[n]\<close>; a pointer into an array is an
  address (or \<^verbatim>\<open>nullptr\<close>, \<open>None\<close>) together with an element offset, a \<open>nat\<close>.
\<close>

type_synonym size_t = "64 word"
type_synonym addr = nat

text \<open>
  The template parameter \<^verbatim>\<open>Type\<close>: the value of \<^verbatim>\<open>Type()\<close>, the state an object is left
  in when it has been moved from (the identity for scalar types), and the value an element
  of \<^verbatim>\<open>new Type[n]\<close> starts with (whatever the default constructor makes, or
  an indeterminate value for scalar types).
\<close>

record 'a Type =
  Type_default :: 'a
  Type_moved :: "'a \<Rightarrow> 'a"
  Type_new :: 'a

text \<open>
  The free store: the live arrays, the next address \<^verbatim>\<open>operator new[]\<close> hands out, and the
  number of elements it can still allocate. \<^verbatim>\<open>new Type[n]\<close> throws when the request is
  larger than that, or larger than \<open>max_array_len\<close>, the largest array a 64-bit
  implementation accepts (\<^verbatim>\<open>PTRDIFF_MAX\<close> bytes, elements of at least one byte).
\<close>

record 'a heap =
  cells :: "addr \<Rightarrow> 'a list option"
  next_addr :: addr
  avail :: nat

definition max_array_len :: nat where
  "max_array_len = 2 ^ 63 - 1"

definition can_alloc :: "'a heap \<Rightarrow> size_t \<Rightarrow> bool" where
  "can_alloc h n \<longleftrightarrow> unat n \<le> max_array_len \<and> unat n \<le> avail h"

text \<open>\<^verbatim>\<open>new Type[n]\<close>; \<open>None\<close> is \<^verbatim>\<open>std::bad_alloc\<close>, the store is then unchanged.\<close>

definition new_array :: "'a Type \<Rightarrow> 'a heap \<Rightarrow> size_t \<Rightarrow> (addr \<times> 'a heap) option" where
  "new_array T h n =
     (if can_alloc h n
      then Some (next_addr h,
                 h\<lparr>cells := (cells h)(next_addr h \<mapsto> replicate (unat n) (Type_new T)),
                   next_addr := Suc (next_addr h),
                   avail := avail h - unat n\<rparr>)
      else None)"

text \<open>\<^verbatim>\<open>delete[] p\<close>; nothing happens for \<^verbatim>\<open>nullptr\<close>; \<open>None\<close> is undefined behaviour
  (the array is not live).\<close>

definition delete_array :: "'a heap \<Rightarrow> addr option \<Rightarrow> 'a heap option" where
  "delete_array h p =
     (case p of
        None \<Rightarrow> Some h
      | Some a \<Rightarrow>
          (case cells h a of
             None \<Rightarrow> None
           | Some buf \<Rightarrow> Some (h\<lparr>cells := (cells h)(a := None), avail := avail h + length buf\<rparr>)))"

text \<open>Reading and writing \<^verbatim>\<open>p[i]\<close>; \<open>None\<close> is undefined behaviour (null or dangling
  pointer, index outside the allocation).\<close>

definition load :: "'a heap \<Rightarrow> addr option \<Rightarrow> nat \<Rightarrow> 'a option" where
  "load h p i =
     (case p of
        None \<Rightarrow> None
      | Some a \<Rightarrow>
          (case cells h a of
             None \<Rightarrow> None
           | Some buf \<Rightarrow> if i < length buf then Some (buf ! i) else None))"

definition store :: "'a heap \<Rightarrow> addr option \<Rightarrow> nat \<Rightarrow> 'a \<Rightarrow> 'a heap option" where
  "store h p i x =
     (case p of
        None \<Rightarrow> None
      | Some a \<Rightarrow>
          (case cells h a of
             None \<Rightarrow> None
           | Some buf \<Rightarrow>
               if i < length buf then Some (h\<lparr>cells := (cells h)(a \<mapsto> buf[i := x])\<rparr>) else None))"

text \<open>
  What a call does: undefined behaviour, an exception together with the state it leaves
  behind, or a normal return with its value and the state.
\<close>

datatype exn = out_of_range | bad_alloc

datatype ('r, 's) outcome = Undefined | Throws exn 's | Returns 'r 's

definition defined :: "'r \<Rightarrow> 's option \<Rightarrow> ('r, 's) outcome" where
  "defined r s = (case s of None \<Rightarrow> Undefined | Some s' \<Rightarrow> Returns r s')"


section \<open>The algorithms of the standard library the code calls\<close>

text \<open>\<^verbatim>\<open>*dst = std::move(*src)\<close> (through a \<^verbatim>\<open>move_iterator\<close>) and \<^verbatim>\<open>*dst = *src\<close>
  (a \<^verbatim>\<open>move_iterator\<close> over \<^verbatim>\<open>const Type*\<close> yields \<^verbatim>\<open>const Type&&\<close>, which
  selects copy assignment).\<close>

definition move_assign_elem ::
  "'a Type \<Rightarrow> 'a heap \<Rightarrow> addr option \<Rightarrow> nat \<Rightarrow> addr option \<Rightarrow> nat \<Rightarrow> 'a heap option" where
  "move_assign_elem T h src s dst d =
     do { x \<leftarrow> load h src s;
          h1 \<leftarrow> store h dst d x;
          store h1 src s (Type_moved T x) }"

definition copy_assign_elem ::
  "'a heap \<Rightarrow> addr option \<Rightarrow> nat \<Rightarrow> addr option \<Rightarrow> nat \<Rightarrow> 'a heap option" where
  "copy_assign_elem h src s dst d =
     do { x \<leftarrow> load h src s;
          store h dst d x }"

text \<open>\<^verbatim>\<open>std::copy(first, last, d_first)\<close>: \<open>n\<close> assignments, front to back.\<close>

fun copy_loop ::
  "('a heap \<Rightarrow> addr option \<Rightarrow> nat \<Rightarrow> addr option \<Rightarrow> nat \<Rightarrow> 'a heap option) \<Rightarrow>
   'a heap \<Rightarrow> addr option \<Rightarrow> nat \<Rightarrow> addr option \<Rightarrow> nat \<Rightarrow> nat \<Rightarrow> 'a heap option" where
  "copy_loop asg h src s dst d 0 = Some h"
| "copy_loop asg h src s dst d (Suc n) =
     do { h1 \<leftarrow> asg h src s dst d;
          copy_loop asg h1 src (Suc s) dst (Suc d) n }"

definition std_copy ::
  "('a heap \<Rightarrow> addr option \<Rightarrow> nat \<Rightarrow> addr option \<Rightarrow> nat \<Rightarrow> 'a heap option) \<Rightarrow>
   'a heap \<Rightarrow> addr option \<Rightarrow> nat \<Rightarrow> nat \<Rightarrow> addr option \<Rightarrow> nat \<Rightarrow> 'a heap option" where
  "std_copy asg h src first lst dst d_first =
     (if lst < first then None else copy_loop asg h src first dst d_first (lst - first))"

text \<open>\<^verbatim>\<open>std::copy_backward(first, last, d_last)\<close>: \<open>n\<close> assignments, back to front.\<close>

fun copy_backward_loop ::
  "('a heap \<Rightarrow> addr option \<Rightarrow> nat \<Rightarrow> addr option \<Rightarrow> nat \<Rightarrow> 'a heap option) \<Rightarrow>
   'a heap \<Rightarrow> addr option \<Rightarrow> nat \<Rightarrow> addr option \<Rightarrow> nat \<Rightarrow> nat \<Rightarrow> 'a heap option" where
  "copy_backward_loop asg h src s dst d 0 = Some h"
| "copy_backward_loop asg h src s dst d (Suc n) =
     do { h1 \<leftarrow> asg h src (s + n) dst (d + n);
          copy_backward_loop asg h1 src s dst d n }"

definition std_copy_backward ::
  "('a heap \<Rightarrow> addr option \<Rightarrow> nat \<Rightarrow> addr option \<Rightarrow> nat \<Rightarrow> 'a heap option) \<Rightarrow>
   'a heap \<Rightarrow> addr option \<Rightarrow> nat \<Rightarrow> nat \<Rightarrow> addr option \<Rightarrow> nat \<Rightarrow> 'a heap option" where
  "std_copy_backward asg h src first lst dst d_last =
     (if lst < first \<or> d_last < lst - first then None
      else copy_backward_loop asg h src first dst (d_last - (lst - first)) (lst - first))"

text \<open>\<^verbatim>\<open>std::fill(first, last, value)\<close>.\<close>

fun fill_loop :: "'a heap \<Rightarrow> addr option \<Rightarrow> nat \<Rightarrow> nat \<Rightarrow> 'a \<Rightarrow> 'a heap option" where
  "fill_loop h p i 0 x = Some h"
| "fill_loop h p i (Suc n) x =
     do { h1 \<leftarrow> store h p i x;
          fill_loop h1 p (Suc i) n x }"

definition std_fill :: "'a heap \<Rightarrow> addr option \<Rightarrow> nat \<Rightarrow> nat \<Rightarrow> 'a \<Rightarrow> 'a heap option" where
  "std_fill h p first lst x =
     (if lst < first then None else fill_loop h p first (lst - first) x)"

text \<open>\<^verbatim>\<open>std::copy\<close> out of an \<^verbatim>\<open>initializer_list\<close>, whose elements are not in the free store.\<close>

fun copy_list :: "'a heap \<Rightarrow> 'a list \<Rightarrow> addr option \<Rightarrow> nat \<Rightarrow> 'a heap option" where
  "copy_list h [] dst d = Some h"
| "copy_list h (x # xs) dst d =
     do { h1 \<leftarrow> store h dst d x;
          copy_list h1 xs dst (Suc d) }"

text \<open>\<^verbatim>\<open>std::equal(first1, last1, first2)\<close>: stops at the first pair that differs.\<close>

fun equal_loop ::
  "'a heap \<Rightarrow> addr option \<Rightarrow> nat \<Rightarrow> addr option \<Rightarrow> nat \<Rightarrow> nat \<Rightarrow> bool option" where
  "equal_loop h p1 i1 p2 i2 0 = Some True"
| "equal_loop h p1 i1 p2 i2 (Suc n) =
     do { x \<leftarrow> load h p1 i1;
          y \<leftarrow> load h p2 i2;
          if x = y then equal_loop h p1 (Suc i1) p2 (Suc i2) n else Some False }"

definition std_equal ::
  "'a heap \<Rightarrow> addr option \<Rightarrow> nat \<Rightarrow> nat \<Rightarrow> addr option \<Rightarrow> nat \<Rightarrow> bool option" where
  "std_equal h p1 first1 lst1 p2 first2 =
     (if lst1 < first1 then None else equal_loop h p1 first1 p2 first2 (lst1 - first1))"

section \<open>ArrayPtr\<close>

text \<open>The member \<^verbatim>\<open>raw_ptr_\<close>. A name cannot end in an underscore here, so the members
  of both classes carry the suffix \<open>_m\<close>.\<close>

record ArrayPtr =
  raw_ptr_m :: "addr option"

definition ArrayPtr_default :: ArrayPtr where
  "ArrayPtr_default = \<lparr>raw_ptr_m = None\<rparr>"

text \<open>\<^verbatim>\<open>explicit ArrayPtr(size_t size)\<close>; \<open>None\<close> when \<^verbatim>\<open>new\<close> throws.\<close>

definition ArrayPtr_sized :: "'a Type \<Rightarrow> 'a heap \<Rightarrow> size_t \<Rightarrow> (ArrayPtr \<times> 'a heap) option" where
  "ArrayPtr_sized T h n =
     (if n > 0
      then (case new_array T h n of
              None \<Rightarrow> None
            | Some (a, h1) \<Rightarrow> Some (\<lparr>raw_ptr_m = Some a\<rparr>, h1))
      else Some (\<lparr>raw_ptr_m = None\<rparr>, h))"

text \<open>\<^verbatim>\<open>ArrayPtr(ArrayPtr&& other)\<close>: the new object and what is left of \<open>other\<close>.\<close>

definition ArrayPtr_move :: "ArrayPtr \<Rightarrow> ArrayPtr \<times> ArrayPtr" where
  "ArrayPtr_move other = (\<lparr>raw_ptr_m = raw_ptr_m other\<rparr>, other\<lparr>raw_ptr_m := None\<rparr>)"

definition ArrayPtr_destroy :: "'a heap \<Rightarrow> ArrayPtr \<Rightarrow> 'a heap option" where
  "ArrayPtr_destroy h p = delete_array h (raw_ptr_m p)"

text \<open>
  \<^verbatim>\<open>operator=(ArrayPtr&& other)\<close>. \<open>same\<close> says that \<^verbatim>\<open>this == &other\<close>. The result is
  the pair of \<^verbatim>\<open>*this\<close> and \<open>other\<close> afterwards. The array \<^verbatim>\<open>*this\<close> owned before is
  not deleted.
\<close>

definition ArrayPtr_move_assign :: "bool \<Rightarrow> ArrayPtr \<Rightarrow> ArrayPtr \<Rightarrow> ArrayPtr \<times> ArrayPtr" where
  "ArrayPtr_move_assign same this other =
     (if \<not> same
      then (this\<lparr>raw_ptr_m := raw_ptr_m other\<rparr>, other\<lparr>raw_ptr_m := None\<rparr>)
      else (this, other))"

definition Release :: "ArrayPtr \<Rightarrow> addr option \<times> ArrayPtr" where
  "Release p = (raw_ptr_m p, p\<lparr>raw_ptr_m := None\<rparr>)"

definition ArrayPtr_index :: "'a heap \<Rightarrow> ArrayPtr \<Rightarrow> nat \<Rightarrow> 'a option" where
  "ArrayPtr_index h p index = load h (raw_ptr_m p) index"

definition ArrayPtr_bool :: "ArrayPtr \<Rightarrow> bool" where
  "ArrayPtr_bool p \<longleftrightarrow> raw_ptr_m p \<noteq> None"

definition Get :: "ArrayPtr \<Rightarrow> addr option" where
  "Get p = raw_ptr_m p"

text \<open>
  \<^verbatim>\<open>swap(ArrayPtr& other)\<close> is \<^verbatim>\<open>std::swap(*this, other)\<close>: a temporary is move-constructed
  from \<^verbatim>\<open>*this\<close>, two move assignments follow, and the temporary is destroyed. Every call
  in this program swaps two different objects.
\<close>

definition ArrayPtr_swap :: "'a heap \<Rightarrow> ArrayPtr \<Rightarrow> ArrayPtr \<Rightarrow> ('a heap \<times> ArrayPtr \<times> ArrayPtr) option" where
  "ArrayPtr_swap h this other =
     (let (tmp, this1) = ArrayPtr_move this;
          (this2, other1) = ArrayPtr_move_assign False this1 other;
          (other2, tmp1) = ArrayPtr_move_assign False other1 tmp
      in do { h1 \<leftarrow> ArrayPtr_destroy h tmp1;
              Some (h1, this2, other2) })"

definition ArrayPtr_index_assign :: "'a heap \<Rightarrow> ArrayPtr \<Rightarrow> nat \<Rightarrow> 'a \<Rightarrow> 'a heap option" where
  "ArrayPtr_index_assign h p index x = store h (raw_ptr_m p) index x"

section \<open>SimpleVector\<close>

text \<open>
  The members \<^verbatim>\<open>data_\<close>, \<^verbatim>\<open>size_\<close> and \<^verbatim>\<open>capacity_\<close>. The elements live in the free
  store, so a state of the program is a heap together with the vector objects. An iterator
  is a pointer into the vector's array and is given by its offset from \<^verbatim>\<open>begin()\<close>, which
  is all the code uses of it (\<^verbatim>\<open>pos - begin()\<close>). An element passed by reference is
  given by its value: it is an object outside the vector's own array, as the temporary is
  that the \<^verbatim>\<open>const Type&\<close> overloads of \<^verbatim>\<open>PushBack\<close> and \<^verbatim>\<open>Insert\<close> make before they
  call the \<^verbatim>\<open>Type&&\<close> overloads.
\<close>

record SimpleVector =
  data_m :: ArrayPtr
  size_m :: size_t
  capacity_m :: size_t

type_synonym 'a state = "'a heap \<times> SimpleVector"

definition SimpleVector_default :: SimpleVector where
  "SimpleVector_default = \<lparr>data_m = ArrayPtr_default, size_m = 0, capacity_m = 0\<rparr>"

definition GetSize :: "SimpleVector \<Rightarrow> size_t" where
  "GetSize v = size_m v"

definition GetCapacity :: "SimpleVector \<Rightarrow> size_t" where
  "GetCapacity v = capacity_m v"

definition IsEmpty :: "SimpleVector \<Rightarrow> bool" where
  "IsEmpty v \<longleftrightarrow> size_m v = 0"

text \<open>\<^verbatim>\<open>operator[]\<close>, read through (\<^verbatim>\<open>v[i]\<close>) and written through (\<^verbatim>\<open>v[i] = x\<close>).\<close>

definition op_index :: "'a heap \<Rightarrow> SimpleVector \<Rightarrow> size_t \<Rightarrow> ('a, 'a state) outcome" where
  "op_index h v index =
     (case ArrayPtr_index h (data_m v) (unat index) of
        None \<Rightarrow> Undefined
      | Some x \<Rightarrow> Returns x (h, v))"


definition RangeCheck :: "SimpleVector \<Rightarrow> size_t \<Rightarrow> exn option" where
  "RangeCheck v index = (if index \<ge> size_m v then Some out_of_range else None)"

definition At :: "'a heap \<Rightarrow> SimpleVector \<Rightarrow> size_t \<Rightarrow> ('a, 'a state) outcome" where
  "At h v index =
     (case RangeCheck v index of
        Some e \<Rightarrow> Throws e (h, v)
      | None \<Rightarrow>
          (case ArrayPtr_index h (data_m v) (unat index) of
             None \<Rightarrow> Undefined
           | Some x \<Rightarrow> Returns x (h, v)))"

definition Clear :: "SimpleVector \<Rightarrow> SimpleVector" where
  "Clear v = v\<lparr>size_m := 0\<rparr>"

text \<open>\<^verbatim>\<open>FillDefault(begin, end)\<close>: the loop runs until \<^verbatim>\<open>it == end\<close>, so it leaves the
  array when \<^verbatim>\<open>end\<close> is before \<^verbatim>\<open>begin\<close>.\<close>

fun FillDefault_loop :: "'a Type \<Rightarrow> 'a heap \<Rightarrow> addr option \<Rightarrow> nat \<Rightarrow> nat \<Rightarrow> 'a heap option" where
  "FillDefault_loop T h p it 0 = Some h"
| "FillDefault_loop T h p it (Suc n) =
     do { h1 \<leftarrow> store h p it (Type_default T);
          FillDefault_loop T h1 p (Suc it) n }"

definition FillDefault :: "'a Type \<Rightarrow> 'a heap \<Rightarrow> addr option \<Rightarrow> nat \<Rightarrow> nat \<Rightarrow> 'a heap option" where
  "FillDefault T h p begin_it end_it =
     (if end_it < begin_it then None else FillDefault_loop T h p begin_it (end_it - begin_it))"

definition Resize :: "'a Type \<Rightarrow> 'a heap \<Rightarrow> SimpleVector \<Rightarrow> size_t \<Rightarrow> (unit, 'a state) outcome" where
  "Resize T h v new_size =
     (if new_size \<le> capacity_m v
      then defined ()
             (do { h1 \<leftarrow> (if new_size > size_m v
                          then FillDefault T h (Get (data_m v)) (unat (size_m v)) (unat new_size)
                          else Some h);
                   Some (h1, v\<lparr>size_m := new_size\<rparr>) })
      else (case ArrayPtr_sized T h new_size of
              None \<Rightarrow> Throws bad_alloc (h, v)
            | Some (new_data, h1) \<Rightarrow>
                defined ()
                  (do { h2 \<leftarrow> std_copy (move_assign_elem T) h1 (Get (data_m v)) 0 (unat (size_m v))
                                (Get new_data) 0;
                        h3 \<leftarrow> FillDefault T h2 (Get new_data) (unat (size_m v)) (unat new_size);
                        (h4, new_data', data') \<leftarrow> ArrayPtr_swap h3 new_data (data_m v);
                        h5 \<leftarrow> ArrayPtr_destroy h4 new_data';
                        Some (h5, v\<lparr>data_m := data', size_m := new_size, capacity_m := new_size\<rparr>) })))"

definition Reserve :: "'a Type \<Rightarrow> 'a heap \<Rightarrow> SimpleVector \<Rightarrow> size_t \<Rightarrow> (unit, 'a state) outcome" where
  "Reserve T h v new_capacity =
     (if new_capacity \<le> capacity_m v
      then Returns () (h, v)
      else (case ArrayPtr_sized T h new_capacity of
              None \<Rightarrow> Throws bad_alloc (h, v)
            | Some (new_data, h1) \<Rightarrow>
                defined ()
                  (do { h2 \<leftarrow> std_copy (move_assign_elem T) h1 (Get (data_m v)) 0
                                (unat (min new_capacity (size_m v))) (Get new_data) 0;
                        (h3, new_data', data') \<leftarrow> ArrayPtr_swap h2 new_data (data_m v);
                        h4 \<leftarrow> ArrayPtr_destroy h3 new_data';
                        Some (h4, v\<lparr>data_m := data', capacity_m := new_capacity\<rparr>) })))"

definition begin_it :: "SimpleVector \<Rightarrow> addr option \<times> nat" where
  "begin_it v = (Get (data_m v), 0)"

definition end_it :: "SimpleVector \<Rightarrow> addr option \<times> nat" where
  "end_it v = (Get (data_m v), unat (size_m v))"

definition Recreate ::
  "'a Type \<Rightarrow> 'a heap \<Rightarrow> SimpleVector \<Rightarrow> size_t \<Rightarrow> size_t \<Rightarrow> 'a \<Rightarrow> (unit, 'a state) outcome" where
  "Recreate T h v new_capacity pos item =
     (case ArrayPtr_sized T h new_capacity of
        None \<Rightarrow> Throws bad_alloc (h, v)
      | Some (new_data, h1) \<Rightarrow>
          defined ()
            (do { h2 \<leftarrow> std_copy (move_assign_elem T) h1 (Get (data_m v)) 0 (unat pos)
                          (Get new_data) 0;
                  h3 \<leftarrow> ArrayPtr_index_assign h2 new_data (unat pos) item;
                  h4 \<leftarrow> std_copy (move_assign_elem T) h3 (Get (data_m v)) (unat pos)
                          (unat (size_m v)) (Get new_data) (unat pos + 1);
                  (h5, new_data', data') \<leftarrow> ArrayPtr_swap h4 new_data (data_m v);
                  h6 \<leftarrow> ArrayPtr_destroy h5 new_data';
                  Some (h6, v\<lparr>data_m := data', capacity_m := new_capacity,
                               size_m := size_m v + 1\<rparr>) }))"

definition PushBack :: "'a Type \<Rightarrow> 'a heap \<Rightarrow> SimpleVector \<Rightarrow> 'a \<Rightarrow> (unit, 'a state) outcome" where
  "PushBack T h v item =
     (if size_m v = capacity_m v
      then Recreate T h v (if capacity_m v = 0 then 1 else capacity_m v * 2) (size_m v) item
      else defined ()
             (do { h1 \<leftarrow> ArrayPtr_index_assign h (data_m v) (unat (size_m v)) item;
                   Some (h1, v\<lparr>size_m := size_m v + 1\<rparr>) }))"

definition returning :: "'r \<Rightarrow> (unit, 's) outcome \<Rightarrow> ('r, 's) outcome" where
  "returning r out =
     (case out of Undefined \<Rightarrow> Undefined | Throws e s \<Rightarrow> Throws e s | Returns u s \<Rightarrow> Returns r s)"

definition InsertInt :: "'a Type \<Rightarrow> 'a heap \<Rightarrow> SimpleVector \<Rightarrow> size_t \<Rightarrow> 'a \<Rightarrow> (size_t, 'a state) outcome" where
  "InsertInt T h v pos val =
     (let shift = pos
      in if size_m v = capacity_m v
         then returning shift
                (Recreate T h v (if capacity_m v = 0 then 1 else capacity_m v * 2) shift val)
         else defined shift
                (do { h1 \<leftarrow> std_copy_backward (move_assign_elem T) h (Get (data_m v)) (unat shift)
                              (unat (size_m v)) (Get (data_m v)) (unat (size_m v) + 1);
                      h2 \<leftarrow> ArrayPtr_index_assign h1 (data_m v) (unat shift) val;
                      Some (h2, v\<lparr>size_m := size_m v + 1\<rparr>) }))"

definition Insert :: "'a Type \<Rightarrow> 'a heap \<Rightarrow> SimpleVector \<Rightarrow> size_t \<Rightarrow> 'a \<Rightarrow> (size_t, 'a state) outcome" where
  "Insert T h v pos val = InsertInt T h v pos val"

definition PopBack :: "SimpleVector \<Rightarrow> SimpleVector" where
  "PopBack v = v\<lparr>size_m := size_m v - 1\<rparr>"


text \<open>\<^verbatim>\<open>swap(SimpleVector& other)\<close>: the heap, \<^verbatim>\<open>*this\<close> and \<open>other\<close> afterwards.\<close>

definition SimpleVector_swap ::
  "'a heap \<Rightarrow> SimpleVector \<Rightarrow> SimpleVector \<Rightarrow> ('a heap \<times> SimpleVector \<times> SimpleVector) option" where
  "SimpleVector_swap h this other =
     do { (h1, d1, d2) \<leftarrow> ArrayPtr_swap h (data_m this) (data_m other);
          Some (h1,
                this\<lparr>data_m := d1, size_m := size_m other, capacity_m := capacity_m other\<rparr>,
                other\<lparr>data_m := d2, size_m := size_m this, capacity_m := capacity_m this\<rparr>) }"

text \<open>\<^verbatim>\<open>Construct(other, size)\<close>, for a vector and for an \<^verbatim>\<open>initializer_list\<close>.\<close>

definition Construct ::
  "'a Type \<Rightarrow> 'a heap \<Rightarrow> SimpleVector \<Rightarrow> SimpleVector \<Rightarrow> size_t \<Rightarrow> (unit, 'a state) outcome" where
  "Construct T h this other n =
     (case ArrayPtr_sized T h n of
        None \<Rightarrow> Throws bad_alloc (h, this)
      | Some (new_data, h1) \<Rightarrow>
          defined ()
            (do { h2 \<leftarrow> std_copy copy_assign_elem h1 (fst (begin_it other)) (snd (begin_it other))
                          (snd (end_it other)) (Get new_data) 0;
                  (h3, new_data', data') \<leftarrow> ArrayPtr_swap h2 new_data (data_m this);
                  h4 \<leftarrow> ArrayPtr_destroy h3 new_data';
                  Some (h4, this\<lparr>data_m := data', capacity_m := n, size_m := n\<rparr>) }))"

definition Construct_list ::
  "'a Type \<Rightarrow> 'a heap \<Rightarrow> SimpleVector \<Rightarrow> 'a list \<Rightarrow> size_t \<Rightarrow> (unit, 'a state) outcome" where
  "Construct_list T h this init n =
     (case ArrayPtr_sized T h n of
        None \<Rightarrow> Throws bad_alloc (h, this)
      | Some (new_data, h1) \<Rightarrow>
          defined ()
            (do { h2 \<leftarrow> copy_list h1 init (Get new_data) 0;
                  (h3, new_data', data') \<leftarrow> ArrayPtr_swap h2 new_data (data_m this);
                  h4 \<leftarrow> ArrayPtr_destroy h3 new_data';
                  Some (h4, this\<lparr>data_m := data', capacity_m := n, size_m := n\<rparr>) }))"

text \<open>
  A constructor runs its body on the default-initialised members and gives the new object;
  when the body throws, the member \<^verbatim>\<open>data_\<close> is destroyed and no object exists.
\<close>

definition constructed :: "(unit, 'a state) outcome \<Rightarrow> (SimpleVector, 'a heap) outcome" where
  "constructed out =
     (case out of
        Undefined \<Rightarrow> Undefined
      | Throws e (h, v) \<Rightarrow>
          (case ArrayPtr_destroy h (data_m v) of None \<Rightarrow> Undefined | Some h' \<Rightarrow> Throws e h')
      | Returns u (h, v) \<Rightarrow> Returns v h)"

definition SimpleVector_fill :: "'a Type \<Rightarrow> 'a heap \<Rightarrow> size_t \<Rightarrow> 'a \<Rightarrow> (SimpleVector, 'a heap) outcome" where
  "SimpleVector_fill T h n val =
     constructed
       (case ArrayPtr_sized T h n of
          None \<Rightarrow> Throws bad_alloc (h, SimpleVector_default)
        | Some (new_data, h1) \<Rightarrow>
            defined ()
              (do { h2 \<leftarrow> std_fill h1 (Get new_data) 0 (unat n) val;
                    (h3, new_data', data') \<leftarrow> ArrayPtr_swap h2 new_data (data_m SimpleVector_default);
                    h4 \<leftarrow> ArrayPtr_destroy h3 new_data';
                    Some (h4, SimpleVector_default\<lparr>data_m := data', capacity_m := n, size_m := n\<rparr>) }))"

definition SimpleVector_sized :: "'a Type \<Rightarrow> 'a heap \<Rightarrow> size_t \<Rightarrow> (SimpleVector, 'a heap) outcome" where
  "SimpleVector_sized T h n = SimpleVector_fill T h n (Type_default T)"

definition SimpleVector_init :: "'a Type \<Rightarrow> 'a heap \<Rightarrow> 'a list \<Rightarrow> (SimpleVector, 'a heap) outcome" where
  "SimpleVector_init T h init =
     constructed (Construct_list T h SimpleVector_default init (of_nat (length init)))"

definition SimpleVector_reserved :: "'a Type \<Rightarrow> 'a heap \<Rightarrow> size_t \<Rightarrow> (SimpleVector, 'a heap) outcome" where
  "SimpleVector_reserved T h proxy_size =
     constructed (Reserve T h SimpleVector_default proxy_size)"

definition SimpleVector_copy :: "'a Type \<Rightarrow> 'a heap \<Rightarrow> SimpleVector \<Rightarrow> (SimpleVector, 'a heap) outcome" where
  "SimpleVector_copy T h other =
     constructed (Construct T h SimpleVector_default other (size_m other))"

text \<open>\<^verbatim>\<open>SimpleVector(SimpleVector&& other)\<close>: the heap, the new object and \<open>other\<close>
  afterwards.\<close>

definition SimpleVector_move ::
  "'a heap \<Rightarrow> SimpleVector \<Rightarrow> ('a heap \<times> SimpleVector \<times> SimpleVector) option" where
  "SimpleVector_move h other = SimpleVector_swap h SimpleVector_default other"

text \<open>
  \<^verbatim>\<open>operator=(const SimpleVector& rhs)\<close>: \<open>rhs\<close> is read only while the temporary is
  built, before \<^verbatim>\<open>*this\<close> changes, so the same definition covers \<^verbatim>\<open>a = a\<close> (pass the
  same object twice; the result is then the state of that one object).
\<close>

definition copy_assign :: "'a Type \<Rightarrow> 'a heap \<Rightarrow> SimpleVector \<Rightarrow> SimpleVector \<Rightarrow> (unit, 'a state) outcome" where
  "copy_assign T h this rhs =
     (case SimpleVector_copy T h rhs of
        Undefined \<Rightarrow> Undefined
      | Throws e h1 \<Rightarrow> Throws e (h1, this)
      | Returns tmp h1 \<Rightarrow>
          defined ()
            (do { (h2, this', tmp') \<leftarrow> SimpleVector_swap h1 this tmp;
                  h3 \<leftarrow> ArrayPtr_destroy h2 (data_m tmp');
                  Some (h3, this') }))"

text \<open>
  \<^verbatim>\<open>operator=(SimpleVector&& rhs) = default\<close>: memberwise move assignment, which for the
  two \<^verbatim>\<open>size_t\<close> members is a copy. The result is \<^verbatim>\<open>*this\<close> and \<open>rhs\<close> afterwards;
  \<open>same\<close> says that they are one object.
\<close>

definition move_assign :: "bool \<Rightarrow> SimpleVector \<Rightarrow> SimpleVector \<Rightarrow> SimpleVector \<times> SimpleVector" where
  "move_assign same this rhs =
     (let (d, rd) = ArrayPtr_move_assign same (data_m this) (data_m rhs);
          this1 = this\<lparr>data_m := d, size_m := size_m rhs, capacity_m := capacity_m rhs\<rparr>
      in if same then (this1, this1) else (this1, rhs\<lparr>data_m := rd\<rparr>))"

text \<open>\<^verbatim>\<open>operator==\<close>.\<close>

definition op_eq :: "'a heap \<Rightarrow> SimpleVector \<Rightarrow> SimpleVector \<Rightarrow> bool option" where
  "op_eq h lhs rhs =
     (if GetSize lhs = GetSize rhs
      then std_equal h (fst (begin_it lhs)) (snd (begin_it lhs)) (snd (end_it lhs))
             (fst (begin_it rhs)) (snd (begin_it rhs))
      else Some False)"

section \<open>What a vector holds\<close>

text \<open>
  The array a vector owns, its elements (the first \<^verbatim>\<open>size_\<close> cells), and the class
  invariant: \<^verbatim>\<open>size_ \<le> capacity_\<close>, and \<^verbatim>\<open>data_\<close> is null when the capacity is 0 and
  otherwise points to a live array of exactly \<^verbatim>\<open>capacity_\<close> elements.
\<close>

definition buffer_at :: "'a heap \<Rightarrow> addr option \<Rightarrow> 'a list" where
  "buffer_at h p =
     (case p of None \<Rightarrow> [] | Some a \<Rightarrow> (case cells h a of None \<Rightarrow> [] | Some buf \<Rightarrow> buf))"

definition buffer :: "'a heap \<Rightarrow> SimpleVector \<Rightarrow> 'a list" where
  "buffer h v = buffer_at h (raw_ptr_m (data_m v))"

definition elements :: "'a heap \<Rightarrow> SimpleVector \<Rightarrow> 'a list" where
  "elements h v = take (unat (size_m v)) (buffer h v)"

definition buffer_empty :: "SimpleVector \<Rightarrow> bool" where
  "buffer_empty v \<longleftrightarrow> \<not> ArrayPtr_bool (data_m v)"

definition valid :: "'a heap \<Rightarrow> SimpleVector \<Rightarrow> bool" where
  "valid h v \<longleftrightarrow>
     size_m v \<le> capacity_m v \<and>
     (case raw_ptr_m (data_m v) of
        None \<Rightarrow> capacity_m v = 0
      | Some a \<Rightarrow>
          capacity_m v \<noteq> 0 \<and> a < next_addr h \<and>
          (case cells h a of
             None \<Rightarrow> False
           | Some buf \<Rightarrow> length buf = unat (capacity_m v) \<and> length buf \<le> max_array_len))"

section \<open>What the loops leave behind\<close>

text \<open>
  The loops change the contents of arrays and nothing else: the same arrays are live, with
  the same lengths. The predicates below describe the contents afterwards, cell by cell.
\<close>

definition same_shape :: "'a heap \<Rightarrow> 'a heap \<Rightarrow> bool" where
  "same_shape h h' \<longleftrightarrow>
     next_addr h' = next_addr h \<and> avail h' = avail h \<and>
     (\<forall>c. map_option length (cells h' c) = map_option length (cells h c))"

text \<open>A range moved from one array into another.\<close>

definition moved_across ::
  "'a heap \<Rightarrow> 'a heap \<Rightarrow> addr option \<Rightarrow> nat \<Rightarrow> addr option \<Rightarrow> nat \<Rightarrow> nat \<Rightarrow> bool" where
  "moved_across h h' src s dst d n \<longleftrightarrow>
     same_shape h h' \<and>
     (\<forall>q. q \<noteq> src \<and> q \<noteq> dst \<longrightarrow> buffer_at h' q = buffer_at h q) \<and>
     (\<forall>i. i < s \<or> s + n \<le> i \<longrightarrow> buffer_at h' src ! i = buffer_at h src ! i) \<and>
     (\<forall>j<n. buffer_at h' dst ! (d + j) = buffer_at h src ! (s + j)) \<and>
     (\<forall>i. i < d \<or> d + n \<le> i \<longrightarrow> buffer_at h' dst ! i = buffer_at h dst ! i)"

definition copied_across ::
  "'a heap \<Rightarrow> 'a heap \<Rightarrow> addr option \<Rightarrow> nat \<Rightarrow> addr option \<Rightarrow> nat \<Rightarrow> nat \<Rightarrow> bool" where
  "copied_across h h' src s dst d n \<longleftrightarrow>
     same_shape h h' \<and>
     (\<forall>q. q \<noteq> dst \<longrightarrow> buffer_at h' q = buffer_at h q) \<and>
     (\<forall>j<n. buffer_at h' dst ! (d + j) = buffer_at h src ! (s + j)) \<and>
     (\<forall>i. i < d \<or> d + n \<le> i \<longrightarrow> buffer_at h' dst ! i = buffer_at h dst ! i)"

definition filled ::
  "'a heap \<Rightarrow> 'a heap \<Rightarrow> addr option \<Rightarrow> nat \<Rightarrow> nat \<Rightarrow> 'a \<Rightarrow> bool" where
  "filled h h' p i n x \<longleftrightarrow>
     same_shape h h' \<and>
     (\<forall>q. q \<noteq> p \<longrightarrow> buffer_at h' q = buffer_at h q) \<and>
     (\<forall>j<n. buffer_at h' p ! (i + j) = x) \<and>
     (\<forall>k. k < i \<or> i + n \<le> k \<longrightarrow> buffer_at h' p ! k = buffer_at h p ! k)"



section \<open>Example states\<close>

text \<open>An element type and a heap with one array \<open>[7, 8]\<close>, owned by a full vector
  (\<open>ex_full\<close>) or by a vector with one spare cell (\<open>ex_spare\<close>).\<close>

definition ex_T :: "int Type" where
  "ex_T = \<lparr>Type_default = 0, Type_moved = (\<lambda>x. - 1), Type_new = 42\<rparr>"

definition ex_heap :: "int heap" where
  "ex_heap = \<lparr>cells = (\<lambda>a. None)(0 \<mapsto> [7, 8]), next_addr = 1, avail = 10\<rparr>"

definition ex_full :: SimpleVector where
  "ex_full = \<lparr>data_m = \<lparr>raw_ptr_m = Some 0\<rparr>, size_m = 2, capacity_m = 2\<rparr>"

definition ex_spare :: SimpleVector where
  "ex_spare = \<lparr>data_m = \<lparr>raw_ptr_m = Some 0\<rparr>, size_m = 1, capacity_m = 2\<rparr>"

text \<open>The heap and the vector that copy construction from \<open>ex_spare\<close> gives, and the
  heap after the array of \<open>ex_full\<close> has been deleted.\<close>

definition ex_heap_copy :: "int heap" where
  "ex_heap_copy = \<lparr>cells = (\<lambda>a. None)(0 \<mapsto> [7, 8], 1 \<mapsto> [7]), next_addr = 2, avail = 9\<rparr>"

definition ex_copy :: SimpleVector where
  "ex_copy = \<lparr>data_m = \<lparr>raw_ptr_m = Some 1\<rparr>, size_m = 1, capacity_m = 1\<rparr>"

definition ex_heap_freed :: "int heap" where
  "ex_heap_freed = \<lparr>cells = (\<lambda>a. None), next_addr = 1, avail = 12\<rparr>"

section \<open>The free store and the loops\<close>

lemma same_shape_refl: "same_shape h h"
  by (simp add: same_shape_def)

lemma same_shape_trans: "same_shape h h1 \<Longrightarrow> same_shape h1 h2 \<Longrightarrow> same_shape h h2"
  by (simp add: same_shape_def)

lemma same_shape_length: "same_shape h h' \<Longrightarrow> length (buffer_at h' p) = length (buffer_at h p)"
proof -
  assume a: "same_shape h h'"
  show ?thesis
  proof (cases p)
    case None
    then show ?thesis by (simp add: buffer_at_def)
  next
    case (Some c)
    have "map_option length (cells h' c) = map_option length (cells h c)"
      using a by (simp add: same_shape_def)
    then show ?thesis using Some
      by (cases "cells h c"; cases "cells h' c") (auto simp: buffer_at_def)
  qed
qed

lemma load_buffer: "i < length (buffer_at h p) \<Longrightarrow> load h p i = Some (buffer_at h p ! i)"
  by (auto simp: load_def buffer_at_def split: option.splits)

lemma store_buffer:
  assumes "i < length (buffer_at h p)"
  shows "\<exists>h'. store h p i x = Some h' \<and> same_shape h h' \<and>
           buffer_at h' p = (buffer_at h p)[i := x] \<and>
           (\<forall>q. q \<noteq> p \<longrightarrow> buffer_at h' q = buffer_at h q)"
proof -
  obtain a b where p: "p = Some a" and b: "cells h a = Some b" and i: "i < length b"
    using assms by (auto simp: buffer_at_def split: option.splits)
  let ?h' = "h\<lparr>cells := (cells h)(a \<mapsto> b[i := x])\<rparr>"
  have "store h p i x = Some ?h'"
    using p b i by (simp add: store_def)
  moreover have "same_shape h ?h'"
    using b by (simp add: same_shape_def)
  moreover have "buffer_at ?h' p = (buffer_at h p)[i := x]"
    using p b by (simp add: buffer_at_def)
  moreover have "\<forall>q. q \<noteq> p \<longrightarrow> buffer_at ?h' q = buffer_at h q"
    using p by (auto simp: buffer_at_def split: option.splits)
  ultimately show ?thesis by blast
qed

lemma move_assign_elem_buffer:
  assumes "s < length (buffer_at h src)" "d < length (buffer_at h dst)"
  shows "\<exists>h'. move_assign_elem T h src s dst d = Some h' \<and> same_shape h h' \<and>
           (\<forall>q. q \<noteq> src \<and> q \<noteq> dst \<longrightarrow> buffer_at h' q = buffer_at h q) \<and>
           (src \<noteq> dst \<longrightarrow>
              buffer_at h' dst = (buffer_at h dst)[d := buffer_at h src ! s] \<and>
              buffer_at h' src = (buffer_at h src)[s := Type_moved T (buffer_at h src ! s)]) \<and>
           (src = dst \<longrightarrow>
              buffer_at h' src =
                (buffer_at h src)[d := buffer_at h src ! s, s := Type_moved T (buffer_at h src ! s)])"
proof -
  let ?x = "buffer_at h src ! s"
  obtain h1 where h1: "store h dst d ?x = Some h1" "same_shape h h1"
      "buffer_at h1 dst = (buffer_at h dst)[d := ?x]"
      "\<forall>q. q \<noteq> dst \<longrightarrow> buffer_at h1 q = buffer_at h q"
    using store_buffer[OF assms(2), of ?x] by blast
  have "s < length (buffer_at h1 src)"
    using assms(1) same_shape_length[OF h1(2), of src] by simp
  then obtain h2 where h2: "store h1 src s (Type_moved T ?x) = Some h2" "same_shape h1 h2"
      "buffer_at h2 src = (buffer_at h1 src)[s := Type_moved T ?x]"
      "\<forall>q. q \<noteq> src \<longrightarrow> buffer_at h2 q = buffer_at h1 q"
    using store_buffer[of s h1 src "Type_moved T ?x"] by blast
  have "move_assign_elem T h src s dst d = Some h2"
    using h1(1) h2(1) assms(1) by (simp add: move_assign_elem_def load_buffer)
  moreover have "same_shape h h2"
    using h1(2) h2(2) by (rule same_shape_trans)
  ultimately show ?thesis
    using h1(3,4) h2(3,4) by auto
qed

lemma copy_assign_elem_buffer:
  assumes "s < length (buffer_at h src)" "d < length (buffer_at h dst)"
  shows "\<exists>h'. copy_assign_elem h src s dst d = Some h' \<and> same_shape h h' \<and>
           (\<forall>q. q \<noteq> dst \<longrightarrow> buffer_at h' q = buffer_at h q) \<and>
           buffer_at h' dst = (buffer_at h dst)[d := buffer_at h src ! s]"
proof -
  let ?x = "buffer_at h src ! s"
  obtain h1 where h1: "store h dst d ?x = Some h1" "same_shape h h1"
      "buffer_at h1 dst = (buffer_at h dst)[d := ?x]"
      "\<forall>q. q \<noteq> dst \<longrightarrow> buffer_at h1 q = buffer_at h q"
    using store_buffer[OF assms(2), of ?x] by blast
  have "copy_assign_elem h src s dst d = Some h1"
    using h1(1) assms(1) by (simp add: copy_assign_elem_def load_buffer)
  then show ?thesis using h1 by blast
qed

lemma copy_loop_move_across:
  assumes "n = 0 \<or> src \<noteq> dst" "s + n \<le> length (buffer_at h src)" "d + n \<le> length (buffer_at h dst)"
  shows "\<exists>h'. copy_loop (move_assign_elem T) h src s dst d n = Some h' \<and>
           moved_across h h' src s dst d n"
  using assms
proof (induction n arbitrary: h s d)
  case 0
  then show ?case by (simp add: moved_across_def same_shape_refl)
next
  case (Suc n)
  obtain h1 where h1: "move_assign_elem T h src s dst d = Some h1" "same_shape h h1"
      "\<forall>q. q \<noteq> src \<and> q \<noteq> dst \<longrightarrow> buffer_at h1 q = buffer_at h q"
      "buffer_at h1 dst = (buffer_at h dst)[d := buffer_at h src ! s]"
      "buffer_at h1 src = (buffer_at h src)[s := Type_moved T (buffer_at h src ! s)]"
    using move_assign_elem_buffer[of s h src d dst T] Suc.prems by auto
  have len: "length (buffer_at h1 src) = length (buffer_at h src)"
      "length (buffer_at h1 dst) = length (buffer_at h dst)"
    using same_shape_length[OF h1(2)] by auto
  obtain h' where h': "copy_loop (move_assign_elem T) h1 src (Suc s) dst (Suc d) n = Some h'"
      "moved_across h1 h' src (Suc s) dst (Suc d) n"
    using Suc.IH[of "Suc s" h1 "Suc d"] Suc.prems len by auto
  have "copy_loop (move_assign_elem T) h src s dst d (Suc n) = Some h'"
    using h1(1) h'(1) by simp
  moreover have "same_shape h h'"
    using h1(2) h'(2) same_shape_trans unfolding moved_across_def by blast
  moreover have "\<forall>q. q \<noteq> src \<and> q \<noteq> dst \<longrightarrow> buffer_at h' q = buffer_at h q"
    using h1(3) h'(2) unfolding moved_across_def by auto
  moreover have "\<forall>i. i < s \<or> s + Suc n \<le> i \<longrightarrow> buffer_at h' src ! i = buffer_at h src ! i"
    using h1(5) h'(2) unfolding moved_across_def by auto
  moreover have "\<forall>j<Suc n. buffer_at h' dst ! (d + j) = buffer_at h src ! (s + j)"
  proof (intro allI impI)
    fix j assume j: "j < Suc n"
    show "buffer_at h' dst ! (d + j) = buffer_at h src ! (s + j)"
    proof (cases j)
      case 0
      then show ?thesis using h'(2) h1(4) Suc.prems(3) unfolding moved_across_def by simp
    next
      case (Suc k)
      then show ?thesis using h'(2) h1(5) j unfolding moved_across_def by simp
    qed
  qed
  moreover have "\<forall>i. i < d \<or> d + Suc n \<le> i \<longrightarrow> buffer_at h' dst ! i = buffer_at h dst ! i"
    using h1(4) h'(2) unfolding moved_across_def by auto
  ultimately show ?case unfolding moved_across_def by blast
qed

lemma copy_loop_copy_across:
  assumes "n = 0 \<or> src \<noteq> dst" "s + n \<le> length (buffer_at h src)" "d + n \<le> length (buffer_at h dst)"
  shows "\<exists>h'. copy_loop copy_assign_elem h src s dst d n = Some h' \<and>
           copied_across h h' src s dst d n"
  using assms
proof (induction n arbitrary: h s d)
  case 0
  then show ?case by (simp add: copied_across_def same_shape_refl)
next
  case (Suc n)
  obtain h1 where h1: "copy_assign_elem h src s dst d = Some h1" "same_shape h h1"
      "\<forall>q. q \<noteq> dst \<longrightarrow> buffer_at h1 q = buffer_at h q"
      "buffer_at h1 dst = (buffer_at h dst)[d := buffer_at h src ! s]"
    using copy_assign_elem_buffer[of s h src d dst] Suc.prems by auto
  have len: "length (buffer_at h1 src) = length (buffer_at h src)"
      "length (buffer_at h1 dst) = length (buffer_at h dst)"
    using same_shape_length[OF h1(2)] by auto
  obtain h' where h': "copy_loop copy_assign_elem h1 src (Suc s) dst (Suc d) n = Some h'"
      "copied_across h1 h' src (Suc s) dst (Suc d) n"
    using Suc.IH[of "Suc s" h1 "Suc d"] Suc.prems len by auto
  have src1: "buffer_at h1 src = buffer_at h src"
    using h1(3) Suc.prems(1) by simp
  have "copy_loop copy_assign_elem h src s dst d (Suc n) = Some h'"
    using h1(1) h'(1) by simp
  moreover have "same_shape h h'"
    using h1(2) h'(2) same_shape_trans unfolding copied_across_def by blast
  moreover have "\<forall>q. q \<noteq> dst \<longrightarrow> buffer_at h' q = buffer_at h q"
    using h1(3) h'(2) unfolding copied_across_def by auto
  moreover have "\<forall>j<Suc n. buffer_at h' dst ! (d + j) = buffer_at h src ! (s + j)"
  proof (intro allI impI)
    fix j assume j: "j < Suc n"
    show "buffer_at h' dst ! (d + j) = buffer_at h src ! (s + j)"
    proof (cases j)
      case 0
      then show ?thesis using h'(2) h1(4) Suc.prems(3) unfolding copied_across_def by simp
    next
      case (Suc k)
      then show ?thesis using h'(2) src1 j unfolding copied_across_def by simp
    qed
  qed
  moreover have "\<forall>i. i < d \<or> d + Suc n \<le> i \<longrightarrow> buffer_at h' dst ! i = buffer_at h dst ! i"
    using h1(4) h'(2) unfolding copied_across_def by auto
  ultimately show ?case unfolding copied_across_def by blast
qed

lemma FillDefault_loop_filled:
  assumes "i + n \<le> length (buffer_at h p)"
  shows "\<exists>h'. FillDefault_loop T h p i n = Some h' \<and> filled h h' p i n (Type_default T)"
  using assms
proof (induction n arbitrary: h i)
  case 0
  then show ?case by (simp add: filled_def same_shape_refl)
next
  case (Suc n)
  obtain h1 where h1: "store h p i (Type_default T) = Some h1" "same_shape h h1"
      "buffer_at h1 p = (buffer_at h p)[i := Type_default T]"
      "\<forall>q. q \<noteq> p \<longrightarrow> buffer_at h1 q = buffer_at h q"
    using store_buffer[of i h p "Type_default T"] Suc.prems by auto
  have len: "length (buffer_at h1 p) = length (buffer_at h p)"
    using same_shape_length[OF h1(2)] by auto
  obtain h' where h': "FillDefault_loop T h1 p (Suc i) n = Some h'"
      "filled h1 h' p (Suc i) n (Type_default T)"
    using Suc.IH[of "Suc i" h1] Suc.prems len by auto
  have "FillDefault_loop T h p i (Suc n) = Some h'"
    using h1(1) h'(1) by simp
  moreover have "same_shape h h'"
    using h1(2) h'(2) same_shape_trans unfolding filled_def by blast
  moreover have "\<forall>q. q \<noteq> p \<longrightarrow> buffer_at h' q = buffer_at h q"
    using h1(4) h'(2) unfolding filled_def by auto
  moreover have "\<forall>j<Suc n. buffer_at h' p ! (i + j) = Type_default T"
  proof (intro allI impI)
    fix j assume j: "j < Suc n"
    show "buffer_at h' p ! (i + j) = Type_default T"
    proof (cases j)
      case 0
      then show ?thesis using h'(2) h1(3) Suc.prems unfolding filled_def by simp
    next
      case (Suc k)
      then show ?thesis using h'(2) j unfolding filled_def by simp
    qed
  qed
  moreover have "\<forall>k. k < i \<or> i + Suc n \<le> k \<longrightarrow> buffer_at h' p ! k = buffer_at h p ! k"
    using h1(3) h'(2) unfolding filled_def by auto
  ultimately show ?case unfolding filled_def by blast
qed



lemma equal_loop_buffer:
  assumes "i1 + n \<le> length (buffer_at h p1)" "i2 + n \<le> length (buffer_at h p2)"
  shows "equal_loop h p1 i1 p2 i2 n =
           Some (\<forall>j<n. buffer_at h p1 ! (i1 + j) = buffer_at h p2 ! (i2 + j))"
  using assms
proof (induction n arbitrary: i1 i2)
  case 0
  then show ?case by simp
next
  case (Suc n)
  have ld: "load h p1 i1 = Some (buffer_at h p1 ! i1)" "load h p2 i2 = Some (buffer_at h p2 ! i2)"
    using Suc.prems by (auto intro: load_buffer)
  have ih: "equal_loop h p1 (Suc i1) p2 (Suc i2) n =
              Some (\<forall>j<n. buffer_at h p1 ! (Suc i1 + j) = buffer_at h p2 ! (Suc i2 + j))"
    using Suc.prems by (intro Suc.IH) auto
  have split: "(\<forall>j<Suc n. buffer_at h p1 ! (i1 + j) = buffer_at h p2 ! (i2 + j)) \<longleftrightarrow>
          buffer_at h p1 ! i1 = buffer_at h p2 ! i2 \<and>
          (\<forall>j<n. buffer_at h p1 ! (Suc i1 + j) = buffer_at h p2 ! (Suc i2 + j))"
    by (auto simp: less_Suc_eq_0_disj)
  show ?case
    using ld ih split by simp
qed



lemma same_shapeD: "same_shape h h' \<Longrightarrow> next_addr h' = next_addr h \<and> avail h' = avail h"
  by (simp add: same_shape_def)

lemma ArrayPtr_swap_eq: "ArrayPtr_swap h a b = Some (h, b, a)"
  by (simp add: ArrayPtr_swap_def ArrayPtr_move_def ArrayPtr_move_assign_def
      ArrayPtr_destroy_def delete_array_def)

lemma SimpleVector_swap_eq: "SimpleVector_swap h a b = Some (h, b, a)"
  by (simp add: SimpleVector_swap_def ArrayPtr_swap_eq)

lemma new_array_buffer:
  assumes "can_alloc h n"
  shows "\<exists>h1. new_array T h n = Some (next_addr h, h1) \<and>
           next_addr h1 = Suc (next_addr h) \<and>
           buffer_at h1 (Some (next_addr h)) = replicate (unat n) (Type_new T) \<and>
           (\<forall>q. q \<noteq> Some (next_addr h) \<longrightarrow> buffer_at h1 q = buffer_at h q)"
  using assms by (auto simp: new_array_def buffer_at_def split: option.splits)

lemma ArrayPtr_sized_buffer:
  assumes "can_alloc h n" "n \<noteq> 0"
  shows "\<exists>h1. ArrayPtr_sized T h n = Some (\<lparr>raw_ptr_m = Some (next_addr h)\<rparr>, h1) \<and>
           next_addr h1 = Suc (next_addr h) \<and>
           buffer_at h1 (Some (next_addr h)) = replicate (unat n) (Type_new T) \<and>
           (\<forall>q. q \<noteq> Some (next_addr h) \<longrightarrow> buffer_at h1 q = buffer_at h q)"
proof -
  obtain h1 where "new_array T h n = Some (next_addr h, h1)" "next_addr h1 = Suc (next_addr h)"
      "buffer_at h1 (Some (next_addr h)) = replicate (unat n) (Type_new T)"
      "\<forall>q. q \<noteq> Some (next_addr h) \<longrightarrow> buffer_at h1 q = buffer_at h q"
    using new_array_buffer[OF assms(1), of T] by blast
  moreover have "0 < n" using assms(2) by (simp add: word_greater_zero_iff)
  ultimately show ?thesis by (simp add: ArrayPtr_sized_def)
qed

lemma delete_array_buffer:
  assumes "p = None \<or> buffer_at h p \<noteq> []"
  shows "\<exists>h'. delete_array h p = Some h' \<and> next_addr h' = next_addr h \<and>
           (\<forall>q. q \<noteq> p \<longrightarrow> buffer_at h' q = buffer_at h q)"
  using assms by (auto simp: delete_array_def buffer_at_def split: option.splits)

lemma valid_iff:
  "valid h v \<longleftrightarrow>
     size_m v \<le> capacity_m v \<and> length (buffer h v) = unat (capacity_m v) \<and>
     unat (capacity_m v) \<le> max_array_len \<and>
     (raw_ptr_m (data_m v) = None \<longleftrightarrow> capacity_m v = 0) \<and>
     (\<forall>a. raw_ptr_m (data_m v) = Some a \<longrightarrow> a < next_addr h)"
  by (auto simp: valid_def buffer_def buffer_at_def unat_eq_0 split: option.splits)

lemma valid_fresh: "valid h v \<Longrightarrow> raw_ptr_m (data_m v) \<noteq> Some (next_addr h)"
  by (auto simp: valid_iff)

lemma valid_live: "valid h v \<Longrightarrow> raw_ptr_m (data_m v) = None \<or> buffer_at h (raw_ptr_m (data_m v)) \<noteq> []"
proof -
  assume v: "valid h v"
  show ?thesis
  proof (cases "raw_ptr_m (data_m v)")
    case None
    then show ?thesis by simp
  next
    case (Some a)
    then have "capacity_m v \<noteq> 0" using v by (simp add: valid_iff)
    then have "length (buffer h v) \<noteq> 0" using v by (simp add: valid_iff unat_eq_0)
    then show ?thesis by (auto simp: buffer_def)
  qed
qed


lemma take_eq_nth:
  "k \<le> length xs \<Longrightarrow> k \<le> length ys \<Longrightarrow> \<forall>i<k. xs ! i = ys ! i \<Longrightarrow> take k xs = take k ys"
  by (rule nth_take_lemma) auto

lemma At_buffer:
  assumes "i < size_m v" "unat (size_m v) \<le> length (buffer h v)"
  shows "At h v i = Returns (buffer h v ! unat i) (h, v)"
proof -
  have "unat i < length (buffer_at h (raw_ptr_m (data_m v)))"
    using assms by (simp add: word_less_nat_alt buffer_def)
  then have "load h (raw_ptr_m (data_m v)) (unat i) = Some (buffer h v ! unat i)"
    by (simp add: load_buffer buffer_def)
  then show ?thesis
    using assms(1) by (simp add: At_def RangeCheck_def ArrayPtr_index_def)
qed


section \<open>PushBack\<close>


lemma grow_eq:
  assumes "m \<le> n" "n \<le> length ys" "m \<le> length xs"
    "\<forall>i<m. ys ! i = xs ! i" "\<forall>j. m + j < n \<longrightarrow> ys ! (m + j) = d"
  shows "take n ys = take m xs @ replicate (n - m) d"
proof (rule nth_equalityI)
  show "length (take n ys) = length (take m xs @ replicate (n - m) d)"
    using assms by simp
next
  fix i assume "i < length (take n ys)"
  then have i: "i < n" by simp
  show "take n ys ! i = (take m xs @ replicate (n - m) d) ! i"
  proof (cases "i < m")
    case True
    then show ?thesis using assms i by (simp add: nth_append)
  next
    case False
    then obtain j where j: "i = m + j" using le_Suc_ex[of m i] by auto
    then show ?thesis using assms i by (simp add: nth_append)
  qed
qed

section \<open>Resize\<close>

text \<open>
  C5. \<^verbatim>\<open>Resize(n)\<close> on a valid vector, with memory for the new array when \<open>n\<close> exceeds
  the capacity, returns normally with size \<open>n\<close> and a valid vector. When \<open>n\<close> is below
  the size, the elements are the first \<open>n\<close> old elements and the capacity is unchanged.
  When \<open>n\<close> is above the size, the elements are the old elements followed by
  \<open>n - size\<close> copies of \<^verbatim>\<open>Type()\<close>.
\<close>

theorem Resize_spec:
  assumes v: "valid h v" and alloc: "capacity_m v < n \<longrightarrow> can_alloc h n"
  shows "\<exists>h' v'. Resize T h v n = Returns () (h', v') \<and> size_m v' = n \<and> valid h' v' \<and>
           (n < size_m v \<longrightarrow>
              elements h' v' = take (unat n) (elements h v) \<and> capacity_m v' = capacity_m v) \<and>
           (size_m v < n \<longrightarrow>
              elements h' v' =
                elements h v @ replicate (unat n - unat (size_m v)) (Type_default T))"
proof -
  let ?p = "raw_ptr_m (data_m v)"
  have vf: "size_m v \<le> capacity_m v" "length (buffer h v) = unat (capacity_m v)"
      "unat (size_m v) \<le> unat (capacity_m v)"
    using v by (auto simp: valid_iff word_le_nat_alt)
  consider (shrink) "n \<le> size_m v" | (fill) "size_m v < n" "n \<le> capacity_m v"
    | (grow) "capacity_m v < n"
    by fastforce
  then show ?thesis
  proof cases
    case shrink
    let ?v' = "v\<lparr>size_m := n\<rparr>"
    have le: "n \<le> capacity_m v" using shrink vf(1) by simp
    have nl: "\<not> size_m v < n" using shrink by (simp add: not_less)
    have run: "Resize T h v n = Returns () (h, ?v')"
      using nl le by (simp add: Resize_def defined_def)
    have val: "valid h ?v'" using v le by (simp add: valid_iff buffer_def)
    have "unat n \<le> unat (size_m v)" using shrink by (simp add: word_le_nat_alt)
    then have el: "elements h ?v' = take (unat n) (elements h v)"
      by (simp add: elements_def buffer_def min_def)
    show ?thesis using run val el shrink by auto
  next
    case fill
    let ?v' = "v\<lparr>size_m := n\<rparr>"
    have un: "unat (size_m v) < unat n" "unat n \<le> unat (capacity_m v)"
      using fill by (auto simp: word_less_nat_alt word_le_nat_alt)
    have "unat (size_m v) + (unat n - unat (size_m v)) \<le> length (buffer_at h ?p)"
      using un vf(2) by (simp add: buffer_def)
    then obtain h' where h': "FillDefault_loop T h ?p (unat (size_m v)) (unat n - unat (size_m v)) = Some h'"
        "filled h h' ?p (unat (size_m v)) (unat n - unat (size_m v)) (Type_default T)"
      using FillDefault_loop_filled[of "unat (size_m v)" "unat n - unat (size_m v)" h ?p T] by blast
    have ss: "same_shape h h'" using h'(2) by (simp add: filled_def)
    have run: "Resize T h v n = Returns () (h', ?v')"
      using fill h'(1) un by (simp add: Resize_def defined_def FillDefault_def Get_def)
    have len: "length (buffer h' ?v') = unat (capacity_m v)"
      using same_shape_length[OF ss, of ?p] vf(2) by (simp add: buffer_def)
    have val: "valid h' ?v'"
      using v fill(2) len same_shapeD[OF ss] by (simp add: valid_iff)
    have "take (unat n) (buffer h' ?v') =
            take (unat (size_m v)) (buffer h v) @ replicate (unat n - unat (size_m v)) (Type_default T)"
    proof (rule grow_eq)
      show "\<forall>i<unat (size_m v). buffer h' ?v' ! i = buffer h v ! i"
        using h'(2) by (simp add: filled_def buffer_def)
      show "\<forall>j. unat (size_m v) + j < unat n \<longrightarrow> buffer h' ?v' ! (unat (size_m v) + j) = Type_default T"
        using h'(2) by (simp add: filled_def buffer_def less_diff_conv add.commute)
    qed (use un len vf in auto)
    then have el: "elements h' ?v' = elements h v @ replicate (unat n - unat (size_m v)) (Type_default T)"
      by (simp add: elements_def)
    show ?thesis using run val el fill by auto
  next
    case grow
    let ?a = "Some (next_addr h)"
    let ?v' = "v\<lparr>data_m := \<lparr>raw_ptr_m = ?a\<rparr>, size_m := n, capacity_m := n\<rparr>"
    have al: "can_alloc h n" using alloc grow by simp
    have nz: "n \<noteq> 0" using grow by auto
    have un: "unat (capacity_m v) < unat n" using grow by (simp add: word_less_nat_alt)
    have ne: "?p \<noteq> ?a" using v by (rule valid_fresh)
    obtain h1 where h1: "ArrayPtr_sized T h n = Some (\<lparr>raw_ptr_m = ?a\<rparr>, h1)"
        "next_addr h1 = Suc (next_addr h)"
        "buffer_at h1 ?a = replicate (unat n) (Type_new T)"
        "\<forall>q. q \<noteq> ?a \<longrightarrow> buffer_at h1 q = buffer_at h q"
      using ArrayPtr_sized_buffer[OF al nz, of T] by blast
    have b1: "buffer_at h1 ?p = buffer h v" using h1(4) ne by (simp add: buffer_def)
    obtain h2 where h2: "copy_loop (move_assign_elem T) h1 ?p 0 ?a 0 (unat (size_m v)) = Some h2"
        "moved_across h1 h2 ?p 0 ?a 0 (unat (size_m v))"
      using copy_loop_move_across[of "unat (size_m v)" ?p ?a 0 h1 0 T] ne vf un b1 h1(3) by auto
    have s2: "same_shape h1 h2" using h2(2) by (simp add: moved_across_def)
    have l2: "length (buffer_at h2 ?a) = unat n" "length (buffer_at h2 ?p) = length (buffer h v)"
      using same_shape_length[OF s2] h1(3) b1 by auto
    have "unat (size_m v) + (unat n - unat (size_m v)) \<le> length (buffer_at h2 ?a)"
      using un vf l2 by simp
    then obtain h3 where h3: "FillDefault_loop T h2 ?a (unat (size_m v)) (unat n - unat (size_m v)) = Some h3"
        "filled h2 h3 ?a (unat (size_m v)) (unat n - unat (size_m v)) (Type_default T)"
      using FillDefault_loop_filled[of "unat (size_m v)" "unat n - unat (size_m v)" h2 ?a T] by blast
    have s3: "same_shape h2 h3" using h3(2) by (simp add: filled_def)
    have l3: "length (buffer_at h3 ?a) = unat n" "length (buffer_at h3 ?p) = length (buffer h v)"
      using same_shape_length[OF s3] l2 by auto
    have "?p = None \<or> buffer_at h3 ?p \<noteq> []"
      using valid_live[OF v] l3(2) by (auto simp: buffer_def)
    then obtain h4 where h4: "delete_array h3 ?p = Some h4" "next_addr h4 = next_addr h3"
        "\<forall>q. q \<noteq> ?p \<longrightarrow> buffer_at h4 q = buffer_at h3 q"
      using delete_array_buffer[of ?p h3] by blast
    have run: "Resize T h v n = Returns () (h4, ?v')"
      using grow h1(1) h2(1) h3(1) h4(1) un vf
      by (simp add: Resize_def std_copy_def FillDefault_def Get_def ArrayPtr_swap_eq
          ArrayPtr_destroy_def defined_def)
    have bv: "buffer h4 ?v' = buffer_at h3 ?a" using h4(3) ne by (simp add: buffer_def)
    have na: "next_addr h4 = Suc (next_addr h)"
      using h4(2) same_shapeD[OF s3] same_shapeD[OF s2] h1(2) by simp
    have val: "valid h4 ?v'"
      using bv l3(1) na al nz unfolding valid_iff can_alloc_def by simp
    have "take (unat n) (buffer h4 ?v') =
            take (unat (size_m v)) (buffer h v) @ replicate (unat n - unat (size_m v)) (Type_default T)"
    proof (rule grow_eq)
      show "\<forall>i<unat (size_m v). buffer h4 ?v' ! i = buffer h v ! i"
      proof (intro allI impI)
        fix i assume i: "i < unat (size_m v)"
        have "buffer_at h3 ?a ! i = buffer_at h2 ?a ! i" using h3(2) i by (simp add: filled_def)
        also have "\<dots> = buffer_at h1 ?p ! i"
          using h2(2) i unfolding moved_across_def by (metis add_0)
        finally show "buffer h4 ?v' ! i = buffer h v ! i" using bv b1 by simp
      qed
      show "\<forall>j. unat (size_m v) + j < unat n \<longrightarrow> buffer h4 ?v' ! (unat (size_m v) + j) = Type_default T"
        using h3(2) bv by (simp add: filled_def less_diff_conv add.commute)
    qed (use un vf l3 bv in auto)
    then have el: "elements h4 ?v' = elements h v @ replicate (unat n - unat (size_m v)) (Type_default T)"
      by (simp add: elements_def)
    have "size_m v < n" using grow vf(1) by simp
    then show ?thesis using run val el by auto
  qed
qed

lemma valid_ex_full: "valid ex_heap ex_full"
  by (simp add: valid_def ex_heap_def ex_full_def max_array_len_def)

lemma valid_ex_spare: "valid ex_heap ex_spare"
  by (simp add: valid_def ex_heap_def ex_spare_def max_array_len_def)

lemma elements_ex_full: "elements ex_heap ex_full = [7, 8]"
  by (simp add: elements_def buffer_def buffer_at_def ex_heap_def ex_full_def)

lemma elements_ex_spare: "elements ex_heap ex_spare = [7]"
  by (simp add: elements_def buffer_def buffer_at_def ex_heap_def ex_spare_def)



theorem Resize_spec_witness:
  "valid ex_heap ex_full \<and> can_alloc ex_heap 3 \<and>
   (\<exists>h' v'. Resize ex_T ex_heap ex_full 3 = Returns () (h', v') \<and> elements h' v' = [7, 8, 0]) \<and>
   (\<exists>h' v'. Resize ex_T ex_heap ex_full 1 = Returns () (h', v') \<and> elements h' v' = [7] \<and>
      capacity_m v' = 2)"
proof -
  have a: "can_alloc ex_heap 3"
    by (simp add: can_alloc_def ex_heap_def max_array_len_def)
  then have a3: "capacity_m ex_full < 3 \<longrightarrow> can_alloc ex_heap 3" by simp
  have a1: "capacity_m ex_full < 1 \<longrightarrow> can_alloc ex_heap 1" by (simp add: ex_full_def)
  have "\<exists>h' v'. Resize ex_T ex_heap ex_full 3 = Returns () (h', v') \<and> elements h' v' = [7, 8, 0]"
    using Resize_spec[OF valid_ex_full a3, of ex_T] elements_ex_full
    by (auto simp: ex_full_def ex_T_def)
  moreover have "\<exists>h' v'. Resize ex_T ex_heap ex_full 1 = Returns () (h', v') \<and>
      elements h' v' = [7] \<and> capacity_m v' = 2"
    using Resize_spec[OF valid_ex_full a1, of ex_T] elements_ex_full
    by (auto simp: ex_full_def)
  ultimately show ?thesis using valid_ex_full a by blast
qed

section \<open>Reserve\<close>

text \<open>
  C7. On a valid vector, \<^verbatim>\<open>Reserve(n)\<close> with \<open>n\<close> at most the capacity returns with the
  heap and the vector exactly as they were. With \<open>n\<close> above the capacity, and memory for
  the new array, it returns with capacity \<open>n\<close>, the same size and the same elements in
  the same order, and the vector is valid again.
\<close>

theorem Reserve_spec:
  assumes v: "valid h v" and alloc: "capacity_m v < n \<longrightarrow> can_alloc h n"
  shows "(n \<le> capacity_m v \<longrightarrow> Reserve T h v n = Returns () (h, v)) \<and>
         (capacity_m v < n \<longrightarrow>
            (\<exists>h' v'. Reserve T h v n = Returns () (h', v') \<and> capacity_m v' = n \<and>
               size_m v' = size_m v \<and> elements h' v' = elements h v \<and> valid h' v'))"
proof (cases "n \<le> capacity_m v")
  case True
  then have "\<not> capacity_m v < n" by (simp add: not_less)
  then show ?thesis using True by (simp add: Reserve_def)
next
  case False
  then have grow: "capacity_m v < n" by (simp add: not_le)
  let ?p = "raw_ptr_m (data_m v)" and ?a = "Some (next_addr h)"
  let ?v' = "v\<lparr>data_m := \<lparr>raw_ptr_m = ?a\<rparr>, capacity_m := n\<rparr>"
  have vf: "size_m v \<le> capacity_m v" "length (buffer h v) = unat (capacity_m v)"
      "unat (size_m v) \<le> unat (capacity_m v)"
    using v by (auto simp: valid_iff word_le_nat_alt)
  have al: "can_alloc h n" using alloc grow by simp
  have nz: "n \<noteq> 0" using grow by auto
  have un: "unat (capacity_m v) < unat n" using grow by (simp add: word_less_nat_alt)
  have "size_m v < n" using vf(1) grow by (rule le_less_trans)
  then have "size_m v \<le> n" by (rule less_imp_le)
  then have mn: "min n (size_m v) = size_m v" by (rule min_absorb2)
  have ne: "?p \<noteq> ?a" using v by (rule valid_fresh)
  obtain h1 where h1: "ArrayPtr_sized T h n = Some (\<lparr>raw_ptr_m = ?a\<rparr>, h1)"
      "next_addr h1 = Suc (next_addr h)"
      "buffer_at h1 ?a = replicate (unat n) (Type_new T)"
      "\<forall>q. q \<noteq> ?a \<longrightarrow> buffer_at h1 q = buffer_at h q"
    using ArrayPtr_sized_buffer[OF al nz, of T] by blast
  have b1: "buffer_at h1 ?p = buffer h v" using h1(4) ne by (simp add: buffer_def)
  obtain h2 where h2: "copy_loop (move_assign_elem T) h1 ?p 0 ?a 0 (unat (size_m v)) = Some h2"
      "moved_across h1 h2 ?p 0 ?a 0 (unat (size_m v))"
    using copy_loop_move_across[of "unat (size_m v)" ?p ?a 0 h1 0 T] ne vf un b1 h1(3) by auto
  have s2: "same_shape h1 h2" using h2(2) by (simp add: moved_across_def)
  have l2: "length (buffer_at h2 ?a) = unat n" "length (buffer_at h2 ?p) = length (buffer h v)"
    using same_shape_length[OF s2] h1(3) b1 by auto
  have "?p = None \<or> buffer_at h2 ?p \<noteq> []"
    using valid_live[OF v] l2(2) by (auto simp: buffer_def)
  then obtain h3 where h3: "delete_array h2 ?p = Some h3" "next_addr h3 = next_addr h2"
      "\<forall>q. q \<noteq> ?p \<longrightarrow> buffer_at h3 q = buffer_at h2 q"
    using delete_array_buffer[of ?p h2] by blast
  have run: "Reserve T h v n = Returns () (h3, ?v')"
    using False h1(1) h2(1) h3(1) mn
    by (simp add: Reserve_def std_copy_def Get_def ArrayPtr_swap_eq ArrayPtr_destroy_def
        defined_def)
  have bv: "buffer h3 ?v' = buffer_at h2 ?a" using h3(3) ne by (simp add: buffer_def)
  have na: "next_addr h3 = Suc (next_addr h)"
    using h3(2) same_shapeD[OF s2] h1(2) by simp
  have sn: "size_m v \<le> n" by fact
  have val: "valid h3 ?v'"
    using bv l2(1) na al nz sn unfolding valid_iff can_alloc_def by simp
  have "take (unat (size_m v)) (buffer h3 ?v') = take (unat (size_m v)) (buffer h v)"
  proof (rule take_eq_nth)
    show "\<forall>i<unat (size_m v). buffer h3 ?v' ! i = buffer h v ! i"
    proof (intro allI impI)
      fix i assume i: "i < unat (size_m v)"
      have "buffer_at h2 ?a ! i = buffer_at h1 ?p ! i"
        using h2(2) i unfolding moved_across_def by (metis add_0)
      then show "buffer h3 ?v' ! i = buffer h v ! i" using bv b1 by simp
    qed
  qed (use un vf l2 bv in auto)
  then have el: "elements h3 ?v' = elements h v"
    by (simp add: elements_def)
  show ?thesis using run val el False by auto
qed

theorem Reserve_spec_witness:
  "valid ex_heap ex_spare \<and> (2::size_t) \<le> capacity_m ex_spare \<and>
   Reserve ex_T ex_heap ex_spare 2 = Returns () (ex_heap, ex_spare) \<and>
   capacity_m ex_spare < 5 \<and> can_alloc ex_heap 5 \<and>
   (\<exists>h' v'. Reserve ex_T ex_heap ex_spare 5 = Returns () (h', v') \<and> capacity_m v' = 5 \<and>
      size_m v' = 1 \<and> elements h' v' = [7])"
proof -
  have a: "can_alloc ex_heap 5"
    by (simp add: can_alloc_def ex_heap_def max_array_len_def)
  have a2: "capacity_m ex_spare < 2 \<longrightarrow> can_alloc ex_heap 2" by (simp add: ex_spare_def)
  have a5: "capacity_m ex_spare < 5 \<longrightarrow> can_alloc ex_heap 5" using a by simp
  have c: "(2::size_t) \<le> capacity_m ex_spare" "capacity_m ex_spare < 5"
    by (simp_all add: ex_spare_def)
  have 1: "Reserve ex_T ex_heap ex_spare 2 = Returns () (ex_heap, ex_spare)"
    using Reserve_spec[OF valid_ex_spare a2, of ex_T] c by simp
  have 2: "\<exists>h' v'. Reserve ex_T ex_heap ex_spare 5 = Returns () (h', v') \<and> capacity_m v' = 5 \<and>
      size_m v' = 1 \<and> elements h' v' = [7]"
    using Reserve_spec[OF valid_ex_spare a5, of ex_T] c elements_ex_spare
    by (auto simp: ex_spare_def)
  show ?thesis using 1 2 a c valid_ex_spare by blast
qed

section \<open>At\<close>

text \<open>
  C4. In every state, \<^verbatim>\<open>At(i)\<close> throws \<^verbatim>\<open>out_of_range\<close> exactly when \<open>i\<close> is at least
  the size, and then leaves the heap and the vector as they were; below the size it does
  what \<^verbatim>\<open>operator[]\<close> does, and on a valid vector that is to return element \<open>i\<close> with the
  heap and the vector as they were.
\<close>

theorem At_spec:
  "((\<exists>s. At h v i = Throws out_of_range s) \<longleftrightarrow> size_m v \<le> i) \<and>
   (size_m v \<le> i \<longrightarrow> At h v i = Throws out_of_range (h, v)) \<and>
   (i < size_m v \<longrightarrow> At h v i = op_index h v i) \<and>
   (i < size_m v \<and> valid h v \<longrightarrow>
      At h v i = Returns (elements h v ! unat i) (h, v) \<and>
      op_index h v i = Returns (elements h v ! unat i) (h, v))"
proof -
  have 1: "size_m v \<le> i \<Longrightarrow> At h v i = Throws out_of_range (h, v)"
    by (simp add: At_def RangeCheck_def)
  have n: "i < size_m v \<Longrightarrow> \<not> size_m v \<le> i"
    by (simp add: not_le)
  have 2: "i < size_m v \<Longrightarrow> At h v i = op_index h v i"
    using n by (simp add: At_def RangeCheck_def op_index_def)
  have 3: "i < size_m v \<Longrightarrow> \<nexists>s. At h v i = Throws out_of_range s"
    using n by (simp add: At_def RangeCheck_def split: option.splits)
  have 4: "At h v i = Returns (elements h v ! unat i) (h, v)" if "i < size_m v" "valid h v"
  proof -
    have "unat (size_m v) \<le> length (buffer h v)"
      using that(2) by (simp add: valid_iff word_le_nat_alt)
    then have "At h v i = Returns (buffer h v ! unat i) (h, v)"
      using that(1) by (intro At_buffer)
    moreover have "unat i < unat (size_m v)" using that(1) by (simp add: word_less_nat_alt)
    ultimately show ?thesis by (simp add: elements_def)
  qed
  have 5: "(\<exists>s. At h v i = Throws out_of_range s) \<longleftrightarrow> size_m v \<le> i"
    using 1 3 by (cases "size_m v \<le> i") (auto simp: not_le)
  show ?thesis using 1 2 4 5 by metis
qed

theorem At_spec_witness:
  "valid ex_heap ex_full \<and> (1::size_t) < size_m ex_full \<and> size_m ex_full \<le> (2::size_t) \<and>
   At ex_heap ex_full 1 = Returns 8 (ex_heap, ex_full) \<and>
   op_index ex_heap ex_full 1 = Returns 8 (ex_heap, ex_full) \<and>
   At ex_heap ex_full 2 = Throws out_of_range (ex_heap, ex_full)"
proof -
  have c: "(1::size_t) < size_m ex_full" "size_m ex_full \<le> (2::size_t)"
    by (simp_all add: ex_full_def)
  show ?thesis
    using At_spec[of ex_heap ex_full 1] At_spec[of ex_heap ex_full 2] c valid_ex_full
      elements_ex_full
    by simp
qed

section \<open>Allocation failure\<close>

lemma ArrayPtr_sized_fails: "new_array T h n = None \<Longrightarrow> ArrayPtr_sized T h n = None"
  by (auto simp: ArrayPtr_sized_def new_array_def can_alloc_def word_greater_zero_iff
      split: if_splits)

text \<open>
  C8. When \<^verbatim>\<open>new Type[n]\<close> fails for the size \<open>n\<close> of the new array, \<^verbatim>\<open>PushBack\<close> and
  \<^verbatim>\<open>Insert\<close> on a full vector (where \<open>n\<close> is 1 or twice the capacity) and \<^verbatim>\<open>Resize(n)\<close>
  and \<^verbatim>\<open>Reserve(n)\<close> with \<open>n\<close> above the capacity throw \<^verbatim>\<open>bad_alloc\<close> and leave the
  heap and the vector exactly as they were.
\<close>

theorem allocation_failure_atomic:
  assumes "new_array T h n = None"
  shows "(size_m v = capacity_m v \<and> n = (if capacity_m v = 0 then 1 else capacity_m v * 2) \<longrightarrow>
            PushBack T h v x = Throws bad_alloc (h, v) \<and>
            Insert T h v pos x = Throws bad_alloc (h, v)) \<and>
         (capacity_m v < n \<longrightarrow>
            Resize T h v n = Throws bad_alloc (h, v) \<and>
            Reserve T h v n = Throws bad_alloc (h, v))"
proof -
  have f: "ArrayPtr_sized T h n = None"
    using assms by (rule ArrayPtr_sized_fails)
  have 1: "PushBack T h v x = Throws bad_alloc (h, v)"
    if "size_m v = capacity_m v" "n = (if capacity_m v = 0 then 1 else capacity_m v * 2)"
    using that f by (simp add: PushBack_def Recreate_def split: if_splits)
  have 2: "Insert T h v pos x = Throws bad_alloc (h, v)"
    if "size_m v = capacity_m v" "n = (if capacity_m v = 0 then 1 else capacity_m v * 2)"
    using that f by (simp add: Insert_def InsertInt_def Recreate_def returning_def split: if_splits)
  have nle: "\<not> n \<le> capacity_m v" if "capacity_m v < n"
    using that by (simp add: not_le)
  have 3: "Resize T h v n = Throws bad_alloc (h, v)" if "capacity_m v < n"
    using nle[OF that] f by (simp add: Resize_def)
  have 4: "Reserve T h v n = Throws bad_alloc (h, v)" if "capacity_m v < n"
    using nle[OF that] f by (simp add: Reserve_def)
  show ?thesis using 1 2 3 4 by blast
qed

theorem allocation_failure_atomic_witness:
  "new_array ex_T (ex_heap\<lparr>avail := 3\<rparr>) 4 = None \<and>
   size_m ex_full = capacity_m ex_full \<and>
   (4::size_t) = (if capacity_m ex_full = 0 then 1 else capacity_m ex_full * 2) \<and>
   capacity_m ex_full < 4 \<and>
   PushBack ex_T (ex_heap\<lparr>avail := 3\<rparr>) ex_full 9 = Throws bad_alloc (ex_heap\<lparr>avail := 3\<rparr>, ex_full) \<and>
   Insert ex_T (ex_heap\<lparr>avail := 3\<rparr>) ex_full 0 9 = Throws bad_alloc (ex_heap\<lparr>avail := 3\<rparr>, ex_full) \<and>
   Resize ex_T (ex_heap\<lparr>avail := 3\<rparr>) ex_full 4 = Throws bad_alloc (ex_heap\<lparr>avail := 3\<rparr>, ex_full) \<and>
   Reserve ex_T (ex_heap\<lparr>avail := 3\<rparr>) ex_full 4 = Throws bad_alloc (ex_heap\<lparr>avail := 3\<rparr>, ex_full)"
proof -
  have f: "new_array ex_T (ex_heap\<lparr>avail := 3\<rparr>) 4 = None"
    by (simp add: new_array_def can_alloc_def)
  have c: "size_m ex_full = capacity_m ex_full"
      "(4::size_t) = (if capacity_m ex_full = 0 then 1 else capacity_m ex_full * 2)"
      "capacity_m ex_full < 4"
    by (simp_all add: ex_full_def)
  show ?thesis
    using allocation_failure_atomic[OF f, of ex_full 9 0] f c by simp
qed

section \<open>Move construction and move assignment\<close>

text \<open>
  C9. Move construction from any vector \<open>A\<close> leaves the heap as it was; the new vector has
  \<open>A\<close>'s array, size and capacity, hence its elements, and \<open>A\<close> is left with a null
  array, size 0 and capacity 0.
\<close>

theorem move_construct_spec:
  "\<exists>B A'. SimpleVector_move h A = Some (h, B, A') \<and>
     data_m B = data_m A \<and> size_m B = size_m A \<and> capacity_m B = capacity_m A \<and>
     elements h B = elements h A \<and>
     size_m A' = 0 \<and> capacity_m A' = 0 \<and> buffer_empty A' \<and> elements h A' = []"
proof -
  have "SimpleVector_move h A = Some (h, A, SimpleVector_default)"
    by (simp add: SimpleVector_move_def SimpleVector_swap_eq)
  then show ?thesis
    by (simp add: SimpleVector_default_def ArrayPtr_default_def buffer_empty_def ArrayPtr_bool_def
        elements_def)
qed

lemma replicate_2: "replicate 2 x = [x, x]"
  by (simp add: numeral_2_eq_2)

text \<open>
  C1. The defaulted move assignment breaks the invariant. The program
  \<^verbatim>\<open>SimpleVector<int> a{7, 8}; SimpleVector<int> b; b = std::move(a);\<close>
  starts from an empty heap; the constructor gives the valid vector \<open>ex_full\<close>, and the
  move assignment leaves \<^verbatim>\<open>a\<close> with a null array but size 2 and capacity 2.
\<close>

theorem move_assign_leaves_capacity:
  "SimpleVector_init ex_T \<lparr>cells = (\<lambda>a. None), next_addr = 0, avail = 12\<rparr> [7, 8] =
     Returns ex_full ex_heap \<and>
   valid ex_heap ex_full \<and>
   move_assign False SimpleVector_default ex_full =
     (ex_full, \<lparr>data_m = \<lparr>raw_ptr_m = None\<rparr>, size_m = 2, capacity_m = 2\<rparr>) \<and>
   buffer_empty (snd (move_assign False SimpleVector_default ex_full)) \<and>
   capacity_m (snd (move_assign False SimpleVector_default ex_full)) \<noteq> 0 \<and>
   \<not> valid ex_heap (snd (move_assign False SimpleVector_default ex_full))"
proof -
  have 1: "SimpleVector_init ex_T \<lparr>cells = (\<lambda>a. None), next_addr = 0, avail = 12\<rparr> [7, 8] =
     Returns ex_full ex_heap"
    by (simp add: SimpleVector_init_def Construct_list_def ArrayPtr_sized_def new_array_def
        can_alloc_def max_array_len_def store_def Get_def ArrayPtr_swap_eq ArrayPtr_destroy_def
        delete_array_def defined_def constructed_def SimpleVector_default_def ArrayPtr_default_def
        ex_T_def ex_full_def ex_heap_def replicate_2)
  have 2: "move_assign False SimpleVector_default ex_full =
     (ex_full, \<lparr>data_m = \<lparr>raw_ptr_m = None\<rparr>, size_m = 2, capacity_m = 2\<rparr>)"
    by (simp add: move_assign_def ArrayPtr_move_assign_def SimpleVector_default_def
        ArrayPtr_default_def ex_full_def)
  show ?thesis
    using 1 valid_ex_full
    by (simp add: 2 buffer_empty_def ArrayPtr_bool_def valid_def)
qed

section \<open>Insert and Erase\<close>







section \<open>Copy construction and copy assignment\<close>

lemma buffer_at_None: "buffer_at h None = []"
  by (simp add: buffer_at_def)

lemma valid_frame:
  assumes "valid h v" "buffer h' v = buffer h v" "next_addr h \<le> next_addr h'"
  shows "valid h' v"
  using assms by (auto simp: valid_iff)

lemma SimpleVector_copy_buffer:
  assumes v: "valid h A" and alloc: "size_m A \<noteq> 0 \<longrightarrow> can_alloc h (size_m A)"
  shows "\<exists>h' B. SimpleVector_copy T h A = Returns B h' \<and>
           size_m B = size_m A \<and> capacity_m B = size_m A \<and>
           raw_ptr_m (data_m B) = (if size_m A = 0 then None else Some (next_addr h)) \<and>
           next_addr h \<le> next_addr h' \<and>
           (\<forall>q. q \<noteq> Some (next_addr h) \<longrightarrow> buffer_at h' q = buffer_at h q) \<and>
           buffer h' B = elements h A \<and> valid h' B"
proof (cases "size_m A = 0")
  case True
  let ?B = "\<lparr>data_m = \<lparr>raw_ptr_m = None\<rparr>, size_m = 0, capacity_m = 0\<rparr>"
  have "SimpleVector_copy T h A = Returns ?B h"
    using True
    by (simp add: SimpleVector_copy_def Construct_def ArrayPtr_sized_def std_copy_def
        begin_it_def end_it_def Get_def ArrayPtr_swap_eq ArrayPtr_destroy_def delete_array_def
        defined_def constructed_def SimpleVector_default_def ArrayPtr_default_def)
  moreover have "valid h ?B" by (simp add: valid_def)
  moreover have "buffer h ?B = elements h A"
    using True by (simp add: buffer_def elements_def buffer_at_None)
  ultimately show ?thesis using True by simp
next
  case False
  let ?p = "raw_ptr_m (data_m A)" and ?a = "Some (next_addr h)"
  let ?n = "size_m A"
  let ?B = "\<lparr>data_m = \<lparr>raw_ptr_m = ?a\<rparr>, size_m = ?n, capacity_m = ?n\<rparr>"
  have al: "can_alloc h ?n" using alloc False by simp
  have vf: "unat ?n \<le> length (buffer_at h ?p)"
    using v by (simp add: valid_iff word_le_nat_alt buffer_def)
  have ne: "?p \<noteq> ?a" using v by (rule valid_fresh)
  obtain h1 where h1: "ArrayPtr_sized T h ?n = Some (\<lparr>raw_ptr_m = ?a\<rparr>, h1)"
      "next_addr h1 = Suc (next_addr h)"
      "buffer_at h1 ?a = replicate (unat ?n) (Type_new T)"
      "\<forall>q. q \<noteq> ?a \<longrightarrow> buffer_at h1 q = buffer_at h q"
    using ArrayPtr_sized_buffer[OF al False, of T] by blast
  have b1: "buffer_at h1 ?p = buffer_at h ?p" using h1(4) ne by simp
  obtain h2 where h2: "copy_loop copy_assign_elem h1 ?p 0 ?a 0 (unat ?n) = Some h2"
      "copied_across h1 h2 ?p 0 ?a 0 (unat ?n)"
    using copy_loop_copy_across[of "unat ?n" ?p ?a 0 h1 0] ne vf b1 h1(3) by auto
  have s2: "same_shape h1 h2" using h2(2) by (simp add: copied_across_def)
  have l2: "length (buffer_at h2 ?a) = unat ?n"
    using same_shape_length[OF s2, of ?a] h1(3) by simp
  have run: "SimpleVector_copy T h A = Returns ?B h2"
    using h1(1) h2(1)
    by (simp add: SimpleVector_copy_def Construct_def std_copy_def begin_it_def end_it_def
        Get_def ArrayPtr_swap_eq ArrayPtr_destroy_def delete_array_def defined_def
        constructed_def SimpleVector_default_def ArrayPtr_default_def)
  have na: "next_addr h2 = Suc (next_addr h)" using same_shapeD[OF s2] h1(2) by simp
  have fr: "\<forall>q. q \<noteq> ?a \<longrightarrow> buffer_at h2 q = buffer_at h q"
    using h2(2) h1(4) by (simp add: copied_across_def)
  have "take (unat ?n) (buffer_at h2 ?a) = take (unat ?n) (buffer_at h ?p)"
  proof (rule take_eq_nth)
    show "\<forall>i<unat ?n. buffer_at h2 ?a ! i = buffer_at h ?p ! i"
      using h2(2) b1 unfolding copied_across_def by (metis add_0)
  qed (use l2 vf in auto)
  then have bb: "buffer h2 ?B = elements h A"
    using l2 by (simp add: buffer_def elements_def)
  have val: "valid h2 ?B"
    using l2 na al False unfolding valid_iff can_alloc_def by (simp add: buffer_def)
  show ?thesis using run False na fr bb val by simp
qed


lemma op_eq_buffer:
  assumes "size_m B = size_m A" "unat (size_m A) \<le> length (buffer h A)"
    "unat (size_m B) \<le> length (buffer h B)"
  shows "op_eq h B A = Some (elements h B = elements h A)"
proof -
  let ?n = "unat (size_m A)"
  have "equal_loop h (raw_ptr_m (data_m B)) 0 (raw_ptr_m (data_m A)) 0 ?n =
          Some (\<forall>j<?n. buffer h B ! (0 + j) = buffer h A ! (0 + j))"
    using assms unfolding buffer_def by (intro equal_loop_buffer) auto
  moreover have "(\<forall>j<?n. buffer h B ! j = buffer h A ! j) \<longleftrightarrow> elements h B = elements h A"
    using assms by (auto simp: elements_def list_eq_iff_nth_eq)
  ultimately show ?thesis
    using assms(1)
    by (simp add: op_eq_def GetSize_def std_equal_def begin_it_def end_it_def Get_def)
qed





text \<open>
  C10, as the code has it. Copy assignment \<^verbatim>\<open>this = rhs\<close> between valid vectors, with
  memory for \<^verbatim>\<open>rhs.size_\<close> elements, returns with \<^verbatim>\<open>*this\<close> valid, holding the size
  and the elements of \<open>rhs\<close>, and with capacity equal to that size. When \<open>rhs\<close> is another
  object (it owns another array, or \<^verbatim>\<open>*this\<close> owns none), \<open>rhs\<close> and its array are as
  they were and \<^verbatim>\<open>*this == rhs\<close>. Self-assignment is the case \<open>rhs = this\<close>: the size
  and the elements stay, and the capacity becomes the size.
\<close>

theorem copy_assign_spec:
  assumes vt: "valid h this" and vr: "valid h rhs"
    and alloc: "size_m rhs \<noteq> 0 \<longrightarrow> can_alloc h (size_m rhs)"
  shows "\<exists>h' this'. copy_assign T h this rhs = Returns () (h', this') \<and>
           size_m this' = size_m rhs \<and> capacity_m this' = size_m rhs \<and>
           elements h' this' = elements h rhs \<and> valid h' this' \<and>
           (raw_ptr_m (data_m rhs) \<noteq> raw_ptr_m (data_m this) \<or> raw_ptr_m (data_m this) = None \<longrightarrow>
              buffer h' rhs = buffer h rhs \<and> valid h' rhs \<and> op_eq h' this' rhs = Some True)"
proof -
  let ?pt = "raw_ptr_m (data_m this)" and ?pr = "raw_ptr_m (data_m rhs)"
  obtain h1 tmp where c: "SimpleVector_copy T h rhs = Returns tmp h1"
      "size_m tmp = size_m rhs" "capacity_m tmp = size_m rhs"
      "raw_ptr_m (data_m tmp) = (if size_m rhs = 0 then None else Some (next_addr h))"
      "next_addr h \<le> next_addr h1"
      "\<forall>q. q \<noteq> Some (next_addr h) \<longrightarrow> buffer_at h1 q = buffer_at h q"
      "buffer h1 tmp = elements h rhs" "valid h1 tmp"
    using SimpleVector_copy_buffer[OF vr alloc, of T] by blast
  let ?pn = "raw_ptr_m (data_m tmp)"
  have fresh: "?pt \<noteq> Some (next_addr h)" "?pr \<noteq> Some (next_addr h)"
    using valid_fresh[OF vt] valid_fresh[OF vr] by simp_all
  have "?pt = None \<or> buffer_at h ?pt \<noteq> []" using vt by (rule valid_live)
  then have "?pt = None \<or> buffer_at h1 ?pt \<noteq> []" using c(6) fresh by auto
  then obtain h2 where d: "delete_array h1 ?pt = Some h2" "next_addr h2 = next_addr h1"
      "\<forall>q. q \<noteq> ?pt \<longrightarrow> buffer_at h2 q = buffer_at h1 q"
    using delete_array_buffer[of ?pt h1] by blast
  have run: "copy_assign T h this rhs = Returns () (h2, tmp)"
    using c(1) d(1) by (simp add: copy_assign_def SimpleVector_swap_eq ArrayPtr_destroy_def defined_def)
  have keep: "buffer_at h2 ?pn = buffer_at h1 ?pn"
    using c(4) d(3) fresh by (cases "?pn = ?pt") (auto simp: buffer_at_None split: if_splits)
  then have bt: "buffer h2 tmp = elements h rhs" using c(7) by (simp add: buffer_def)
  have lenr: "unat (size_m rhs) \<le> length (buffer h rhs)"
    using vr by (simp add: valid_iff word_le_nat_alt)
  have el: "elements h2 tmp = elements h rhs"
    using bt c(2) by (simp add: elements_def)
  have val: "valid h2 tmp"
    using c(8) keep d(2) by (intro valid_frame[of h1 tmp h2]) (auto simp: buffer_def)
  have other: "buffer h2 rhs = buffer h rhs \<and> valid h2 rhs \<and> op_eq h2 tmp rhs = Some True"
    if apart: "?pr \<noteq> ?pt \<or> ?pt = None"
  proof -
    have "buffer_at h2 ?pr = buffer_at h1 ?pr"
      using apart d(3) by (cases "?pr = ?pt") (auto simp: buffer_at_None)
    then have b: "buffer h2 rhs = buffer h rhs" using c(6) fresh by (simp add: buffer_def)
    have v2: "valid h2 rhs"
      using vr b c(5) d(2) by (intro valid_frame[of h rhs h2]) auto
    have "length (buffer h2 tmp) = unat (size_m rhs)"
      using bt lenr by (simp add: elements_def)
    then have "op_eq h2 tmp rhs = Some (elements h2 tmp = elements h2 rhs)"
      using c(2) b lenr by (intro op_eq_buffer) auto
    moreover have "elements h2 rhs = elements h rhs" using b by (simp add: elements_def)
    ultimately show ?thesis using b v2 el by simp
  qed
  show ?thesis
    by (intro exI[of _ h2] exI[of _ tmp]) (use run c(2,3) el val other in simp)
qed

lemma valid_Clear_ex_full: "valid ex_heap (Clear ex_full)"
  by (simp add: valid_def Clear_def ex_heap_def ex_full_def max_array_len_def)

lemma self_assign_cleared:
  "copy_assign ex_T ex_heap (Clear ex_full) (Clear ex_full) =
     Returns () (ex_heap_freed, SimpleVector_default)"
  by (simp add: copy_assign_def SimpleVector_copy_def Construct_def ArrayPtr_sized_def
      std_copy_def begin_it_def end_it_def Get_def ArrayPtr_swap_eq SimpleVector_swap_eq
      ArrayPtr_destroy_def delete_array_def defined_def constructed_def SimpleVector_default_def
      ArrayPtr_default_def Clear_def ex_heap_def ex_full_def ex_heap_freed_def)

text \<open>
  Self-assignment of a cleared vector (size 0, capacity 2) leaves it with capacity 0: whether
  the capacity is zero is not preserved.
\<close>

theorem self_assign_capacity_counterexample:
  "valid ex_heap (Clear ex_full) \<and> size_m (Clear ex_full) = 0 \<and>
   capacity_m (Clear ex_full) = 2 \<and>
   copy_assign ex_T ex_heap (Clear ex_full) (Clear ex_full) =
     Returns () (ex_heap_freed, SimpleVector_default) \<and>
   capacity_m SimpleVector_default = 0"
  using valid_Clear_ex_full self_assign_cleared
  by (simp add: Clear_def ex_full_def SimpleVector_default_def)

theorem copy_assign_spec_witness:
  "valid ex_heap_copy ex_copy \<and> valid ex_heap_copy ex_full \<and>
   can_alloc ex_heap_copy (size_m ex_full) \<and>
   raw_ptr_m (data_m ex_full) \<noteq> raw_ptr_m (data_m ex_copy) \<and>
   (\<exists>h' this'. copy_assign ex_T ex_heap_copy ex_copy ex_full = Returns () (h', this') \<and>
      size_m this' = 2 \<and> capacity_m this' = 2 \<and> elements h' this' = [7, 8] \<and>
      buffer h' ex_full = [7, 8] \<and> op_eq h' this' ex_full = Some True) \<and>
   (\<exists>h' this'. copy_assign ex_T ex_heap_copy ex_full ex_full = Returns () (h', this') \<and>
      size_m this' = 2 \<and> capacity_m this' = 2 \<and> elements h' this' = [7, 8])"
proof -
  have vc: "valid ex_heap_copy ex_copy"
    by (simp add: valid_def ex_heap_copy_def ex_copy_def max_array_len_def)
  have vf: "valid ex_heap_copy ex_full"
    by (simp add: valid_def ex_heap_copy_def ex_full_def max_array_len_def)
  have a: "can_alloc ex_heap_copy (size_m ex_full)"
    by (simp add: can_alloc_def ex_heap_copy_def ex_full_def max_array_len_def)
  then have a': "size_m ex_full \<noteq> 0 \<longrightarrow> can_alloc ex_heap_copy (size_m ex_full)" by simp
  have ne: "raw_ptr_m (data_m ex_full) \<noteq> raw_ptr_m (data_m ex_copy)"
    by (simp add: ex_full_def ex_copy_def)
  have e: "elements ex_heap_copy ex_full = [7, 8]" "buffer ex_heap_copy ex_full = [7, 8]"
    by (simp_all add: elements_def buffer_def buffer_at_def ex_heap_copy_def ex_full_def)
  have s: "size_m ex_full = 2" by (simp add: ex_full_def)
  have 1: "\<exists>h' this'. copy_assign ex_T ex_heap_copy ex_copy ex_full = Returns () (h', this') \<and>
      size_m this' = 2 \<and> capacity_m this' = 2 \<and> elements h' this' = [7, 8] \<and>
      buffer h' ex_full = [7, 8] \<and> op_eq h' this' ex_full = Some True"
    using copy_assign_spec[OF vc vf a', of ex_T] ne e s by auto
  have 2: "\<exists>h' this'. copy_assign ex_T ex_heap_copy ex_full ex_full = Returns () (h', this') \<and>
      size_m this' = 2 \<and> capacity_m this' = 2 \<and> elements h' this' = [7, 8]"
    using copy_assign_spec[OF vf vf a', of ex_T] e s by auto
  show ?thesis using vc vf a ne 1 2 by blast
qed

end
